theory Spec2Isabelle
  imports Complex_Main "HOL-Library.Word"
begin

unbundle bit_operations_syntax

section \<open>midi2json: a shallow embedding of \<^verbatim>\<open>src/midi2json.js\<close>\<close>

subsection \<open>JavaScript values\<close>

text \<open>
  A Buffer is a list of octets. The integers the script computes from the file
  (\<^verbatim>\<open>parseInt(hex, 16)\<close>, the bitwise operators, the byte counters) are natural numbers or
  NaN: \<open>number\<close> is \<open>nat option\<close> with \<open>None\<close> for NaN. JavaScript keeps them in
  binary64, which holds every integer below \<open>2 ^ 53\<close> exactly; where the script uses
  such a value as a floating-point number, \<open>numOf\<close> below gives its binary64 value.
\<close>

type_synonym byte = "8 word"
type_synonym number = "nat option"

text \<open>
  The tempo, the override and the millisecond timestamps are binary64 values that
  divide and multiply. \<open>jsnum\<close> has the special values of IEEE 754 (NaN, the two
  infinities, the negative zero; \<open>Fin 0\<close> is the positive zero) and \<open>Fin r\<close> for
  the finite value \<open>r\<close>.
\<close>

datatype jsnum = NaN | PInf | NInf | NZero | Fin real

definition isZero :: "jsnum \<Rightarrow> bool" where
  "isZero x = (x = NZero \<or> x = Fin 0)"

definition isInf :: "jsnum \<Rightarrow> bool" where
  "isInf x = (x = PInf \<or> x = NInf)"

fun signBit :: "jsnum \<Rightarrow> bool" where
  "signBit NaN = False"
| "signBit PInf = False"
| "signBit NInf = True"
| "signBit NZero = True"
| "signBit (Fin r) = (r < 0)"

fun magnitude :: "jsnum \<Rightarrow> real" where
  "magnitude (Fin r) = r"
| "magnitude _ = 0"

text \<open>
  The rounding of IEEE 754 that every arithmetic operation of JavaScript ends with
  (round to nearest, ties to even). \<open>roundEven\<close> is the nearest integer, the even one
  of two that are equally near. A binary64 value has 53 significant bits and an
  exponent from \<open>- 1022\<close> (below \<open>2 ^ - 1022\<close> the values are the multiples of
  \<open>2 ^ - 1074\<close>) to 1023: \<open>exponentOf\<close> is the exponent of a positive real,
  \<open>round64\<close> the binary64 value of the real \<open>x\<close>, an infinity when the rounded
  magnitude reaches \<open>2 ^ 1024\<close>, a zero of the sign of \<open>x\<close> when it rounds to 0.
\<close>

definition roundEven :: "real \<Rightarrow> int" where
  "roundEven y =
     (let f = \<lfloor>y\<rfloor>; d = y - of_int f
      in if d < 1 / 2 then f else if 1 / 2 < d then f + 1
         else if even f then f else f + 1)"

definition exponentOf :: "real \<Rightarrow> int" where
  "exponentOf a = max \<lfloor>log 2 a\<rfloor> (- 1022)"

definition round64 :: "real \<Rightarrow> jsnum" where
  "round64 x =
     (if x = 0 then Fin 0
      else
        (let a = \<bar>x\<bar>;
             q = 2 powr (of_int (exponentOf a) - 52);
             r = of_int (roundEven (a / q)) * q
         in if 2 ^ 1024 \<le> r then (if x < 0 then NInf else PInf)
            else if r = 0 then (if x < 0 then NZero else Fin 0)
            else Fin (if x < 0 then - r else r)))"

text \<open>\<^verbatim>\<open>a / b\<close> on numbers: the special cases, or the rounded quotient.\<close>

definition jsdiv :: "jsnum \<Rightarrow> jsnum \<Rightarrow> jsnum" where
  "jsdiv a b =
     (if a = NaN \<or> b = NaN then NaN
      else if isInf a \<and> isInf b then NaN
      else if isZero a \<and> isZero b then NaN
      else if isInf a \<or> isZero b then (if signBit a \<noteq> signBit b then NInf else PInf)
      else if isZero a \<or> isInf b then (if signBit a \<noteq> signBit b then NZero else Fin 0)
      else round64 (magnitude a / magnitude b))"

text \<open>\<^verbatim>\<open>a * b\<close> on numbers: the special cases, or the rounded product.\<close>

definition jsmul :: "jsnum \<Rightarrow> jsnum \<Rightarrow> jsnum" where
  "jsmul a b =
     (if a = NaN \<or> b = NaN then NaN
      else if (isInf a \<and> isZero b) \<or> (isZero a \<and> isInf b) then NaN
      else if isInf a \<or> isInf b then (if signBit a \<noteq> signBit b then NInf else PInf)
      else if isZero a \<or> isZero b then (if signBit a \<noteq> signBit b then NZero else Fin 0)
      else round64 (magnitude a * magnitude b))"

text \<open>\<^verbatim>\<open>x > 0.0\<close>: false for NaN and for both zeros.\<close>

fun jsgt0 :: "jsnum \<Rightarrow> bool" where
  "jsgt0 PInf = True"
| "jsgt0 (Fin r) = (0 < r)"
| "jsgt0 _ = False"

text \<open>
  The binary64 value of an integer that \<^verbatim>\<open>parseInt\<close> has read: the integer itself
  below \<open>2 ^ 53\<close>, the nearest binary64 value above, \<^verbatim>\<open>Infinity\<close> from
  \<open>2 ^ 1024 - 2 ^ 970\<close> on.
\<close>

definition numOf :: "number \<Rightarrow> jsnum" where
  "numOf x = (case x of None \<Rightarrow> NaN | Some n \<Rightarrow> round64 (real n))"

text \<open>
  \<^verbatim>\<open>x & mask\<close> and \<^verbatim>\<open>x < k\<close> on an integer or NaN: ToInt32 sends NaN to 0, and every
  comparison with NaN is false. The masks of the script are below \<open>2 ^ 16\<close>.
\<close>

definition band :: "number \<Rightarrow> nat \<Rightarrow> nat" where
  "band x m = (case x of None \<Rightarrow> 0 | Some n \<Rightarrow> n AND m)"

definition jslt :: "number \<Rightarrow> nat \<Rightarrow> bool" where
  "jslt x k = (case x of None \<Rightarrow> False | Some n \<Rightarrow> n < k)"

text \<open>
  ToInt32, the conversion of the operands of \<^verbatim>\<open><<\<close> and \<^verbatim>\<open>|\<close>, on the data bytes (NaN
  or below 256): NaN becomes 0.
\<close>

definition toInt32 :: "number \<Rightarrow> nat" where
  "toInt32 x = (case x of None \<Rightarrow> 0 | Some n \<Rightarrow> n)"

text \<open>Truthiness of a number: NaN and 0 are falsy.\<close>

definition truthyNum :: "number \<Rightarrow> bool" where
  "truthyNum x = (case x of None \<Rightarrow> False | Some n \<Rightarrow> n \<noteq> 0)"

subsection \<open>Events and the module's globals\<close>

text \<open>
  The event objects pushed on \<^verbatim>\<open>trackData\<close>. The first field is \<^verbatim>\<open>time\<close>
  (the accumulated delta time, always an integer); a data byte read past the end of
  the buffer is NaN. The pitchwheel value comes out of \<^verbatim>\<open>|\<close> and is never NaN.
\<close>

datatype event =
    NoteOff nat number number
  | NoteOn nat number number
  | PolyAftertouch nat number number
  | CC nat number number
  | ProgramChange nat number
  | Aftertouch nat number
  | Pitchwheel nat nat
  | TrackEnd nat

fun evTime :: "event \<Rightarrow> nat" where
  "evTime (NoteOff t _ _) = t"
| "evTime (NoteOn t _ _) = t"
| "evTime (PolyAftertouch t _ _) = t"
| "evTime (CC t _ _) = t"
| "evTime (ProgramChange t _) = t"
| "evTime (Aftertouch t _) = t"
| "evTime (Pitchwheel t _) = t"
| "evTime (TrackEnd t) = t"

text \<open>
  The globals of lines 5 to 18. \<open>runningStatus\<close> is \<open>None\<close> for \<^verbatim>\<open>null\<close>, and
  \<open>Some None\<close> for NaN (the status read past the end of the buffer).
  \<open>outputDict\<close> holds the own properties of the object.
\<close>

record globals =
  tempTrackName :: string
  tempo :: jsnum
  overrideTempoBPM :: jsnum
  overrideTempo :: jsnum
  division :: number
  outputDict :: "string \<rightharpoonup> event list"
  runningStatus :: "number option"
  bytes :: "byte list"
  byteIndex :: nat

text \<open>
  The strings \<^verbatim>\<open>"MThd"\<close> and \<^verbatim>\<open>"MTrk"\<close>, as the bytes a Buffer must hold to compare equal
  to them. \<^verbatim>\<open>bytes\<close> is not initialised by the module; the script assigns it before any
  read.
\<close>

definition headerChunk :: "byte list" where
  "headerChunk = [0x4D, 0x54, 0x68, 0x64]"

definition trackChunk :: "byte list" where
  "trackChunk = [0x4D, 0x54, 0x72, 0x6B]"

definition initialGlobals :: globals where
  "initialGlobals =
     \<lparr> tempTrackName = '''', tempo = Fin 500000, overrideTempoBPM = Fin 0,
       overrideTempo = Fin 0, division = Some 0, outputDict = Map.empty,
       runningStatus = None, bytes = [], byteIndex = 0 \<rparr>"

subsection \<open>Reading bytes\<close>

text \<open>
  \<^verbatim>\<open>bufferToNumber\<close>: the hexadecimal digits of the buffer, parsed: the big-endian value,
  and NaN for the empty buffer (\<^verbatim>\<open>parseInt("", 16)\<close>). This is the integer the digits
  denote; \<^verbatim>\<open>parseInt\<close> returns the binary64 value nearest to it, which is another
  number only for a buffer of seven bytes or more. The script reads that many bytes
  at once only as the payload of a meta event, and uses the value of a payload in two
  ways: for its truthiness, which the rounding does not change (a non-zero integer
  rounds to a non-zero number or to \<^verbatim>\<open>Infinity\<close>), and as the tempo, which is
  \<open>numOf\<close> of it.
\<close>

definition bufferToNumber :: "byte list \<Rightarrow> number" where
  "bufferToNumber buffer =
     (if buffer = [] then None else Some (foldl (\<lambda>acc b. acc * 256 + unat b) 0 buffer))"

text \<open>
  \<^verbatim>\<open>readBytes\<close>: \<^verbatim>\<open>Buffer.slice\<close> clamps both ends to the buffer, so the result is
  short or empty near the end; \<^verbatim>\<open>byteIndex\<close> advances by \<^verbatim>\<open>numBytes\<close> all the same.
\<close>

definition readBytes :: "nat \<Rightarrow> globals \<Rightarrow> byte list \<times> globals" where
  "readBytes numBytes g =
     (take numBytes (drop (byteIndex g) (bytes g)),
      g\<lparr>byteIndex := byteIndex g + numBytes\<rparr>)"

text \<open>
  \<^verbatim>\<open>readVariableLength\<close>. The loop carries \<^verbatim>\<open>retVal\<close>, \<^verbatim>\<open>byte\<close> and \<^verbatim>\<open>byteCount\<close>;
  \<^verbatim>\<open>retVal\<close> stays below \<open>2 ^ 28\<close>, so the 32-bit shift never wraps.
\<close>

function rvlLoop :: "nat \<Rightarrow> number \<Rightarrow> nat \<Rightarrow> globals \<Rightarrow> (nat \<times> number \<times> nat) \<times> globals" where
  "rvlLoop retVal byte byteCount g =
     (if band byte 0x80 \<noteq> 0 \<and> byteCount < 3 then
        (let retVal' = push_bit 7 retVal OR band byte 0x7F;
             (inbuf, g') = readBytes 1 g
         in rvlLoop retVal' (bufferToNumber inbuf) (byteCount + 1) g')
      else ((retVal, byte, byteCount), g))"
  by pat_completeness auto
termination
  by (relation "measure (\<lambda>(retVal, byte, byteCount, g). 3 - byteCount)") auto

declare rvlLoop.simps [simp del]

definition readVariableLength :: "globals \<Rightarrow> (nat \<times> nat) \<times> globals" where
  "readVariableLength g =
     (let (buf, g1) = readBytes 1 g;
          ((retVal, byte, byteCount), g2) = rvlLoop 0 (bufferToNumber buf) 0 g1
      in ((push_bit 7 retVal OR band byte 0x7F, byteCount + 1), g2))"

subsection \<open>The event decoders\<close>

text \<open>
  \<^verbatim>\<open>readEvent\<close>, lines 123 to 134: the effective status and the first data byte when
  the header byte is one (running status), or \<open>None\<close> on the error return.
\<close>

definition resolveStatus :: "number \<Rightarrow> number option \<Rightarrow> (number \<times> number option) option" where
  "resolveStatus headerByte rs =
     (if jslt headerByte 0x80 then
        (case rs of
           Some (Some s) \<Rightarrow> if s \<noteq> 0 then Some (Some s, Some headerByte) else None
         | _ \<Rightarrow> None)
      else Some (headerByte, None))"

text \<open>One more data byte, and the event built from it.\<close>

definition secondByte :: "(number \<Rightarrow> event) \<Rightarrow> nat \<Rightarrow> event list \<Rightarrow> globals \<Rightarrow> nat \<times> event list \<times> globals" where
  "secondByte mk bytesRead trackData g =
     (let (b, g') = readBytes 1 g
      in (bytesRead + 1, trackData @ [mk (bufferToNumber b)], g'))"

definition readEvent :: "event list \<Rightarrow> nat \<Rightarrow> number \<Rightarrow> globals \<Rightarrow> nat \<times> event list \<times> globals" where
  "readEvent trackData totalDeltaTime headerByte g =
     (case resolveStatus headerByte (runningStatus g) of
        None \<Rightarrow> (0, trackData, g)
      | Some (status, running) \<Rightarrow>
          (let headerMasked = band status 0xF0;
               (firstDataByte, bytesRead, g1) =
                 (case running of
                    Some d \<Rightarrow> (d, 0, g)
                  | None \<Rightarrow> (let (b, g') = readBytes 1 g in (bufferToNumber b, 1, g')));
               (bytesRead', trackData', g2) =
                 (if headerMasked = 0x80 then
                    secondByte (NoteOff totalDeltaTime firstDataByte) bytesRead trackData g1
                  else if headerMasked = 0x90 then
                    secondByte (NoteOn totalDeltaTime firstDataByte) bytesRead trackData g1
                  else if headerMasked = 0xA0 then
                    secondByte (PolyAftertouch totalDeltaTime firstDataByte) bytesRead trackData g1
                  else if headerMasked = 0xB0 then
                    secondByte (CC totalDeltaTime firstDataByte) bytesRead trackData g1
                  else if headerMasked = 0xC0 then
                    (bytesRead, trackData @ [ProgramChange totalDeltaTime firstDataByte], g1)
                  else if headerMasked = 0xD0 then
                    (bytesRead, trackData @ [Aftertouch totalDeltaTime firstDataByte], g1)
                  else if headerMasked = 0xE0 then
                    secondByte
                      (\<lambda>msb. Pitchwheel totalDeltaTime
                         (push_bit 7 (toInt32 msb) OR toInt32 firstDataByte))
                      bytesRead trackData g1
                  else (bytesRead, trackData, g1))
           in (bytesRead', trackData', g2\<lparr>runningStatus := Some status\<rparr>)))"

text \<open>
  \<^verbatim>\<open>metaData.toString("ascii")\<close>: one character for each byte, its high bit cleared.
\<close>

definition toAscii :: "byte list \<Rightarrow> string" where
  "toAscii buffer = map (\<lambda>b. char_of (unat (b AND 0x7F))) buffer"

definition readMetaEvent :: "event list \<Rightarrow> nat \<Rightarrow> globals \<Rightarrow> nat \<times> event list \<times> globals" where
  "readMetaEvent trackData totalDeltaTime g =
     (let g0 = g\<lparr>runningStatus := None\<rparr>;
          (hb, g1) = readBytes 1 g0;
          metaHeader = bufferToNumber hb;
          ((metaLength, n), g2) = readVariableLength g1
      in if metaLength > 0 then
           (let (metaData, g3) = readBytes metaLength g2;
                metaValue = bufferToNumber metaData;
                g4 = (if metaHeader = Some 0x03 then
                        (if truthyNum metaValue then g3\<lparr>tempTrackName := toAscii metaData\<rparr>
                         else g3)
                      else if metaHeader = Some 0x51 then g3\<lparr>tempo := numOf metaValue\<rparr>
                      else g3)
            in (1 + n + metaLength, trackData, g4))
         else
           (1 + n,
            if metaHeader = Some 0x2F then trackData @ [TrackEnd totalDeltaTime] else trackData,
            g2))"

definition readSysex :: "event list \<Rightarrow> nat \<Rightarrow> number \<Rightarrow> globals \<Rightarrow> nat \<times> event list \<times> globals" where
  "readSysex trackData totalDeltaTime headerByte g =
     (let g0 = (if jslt headerByte 0xF8 then g\<lparr>runningStatus := None\<rparr> else g);
          ((len, n), g1) = readVariableLength g0;
          (skipped, g2) = readBytes len g1
      in (len + n, trackData, g2))"

subsection \<open>Tracks\<close>

text \<open>
  One iteration of the loop of \<^verbatim>\<open>readTrack\<close> (lines 89 to 106): the delta time, the
  header byte and the dispatch. It returns \<^verbatim>\<open>bytesRead\<close>, the new \<^verbatim>\<open>totalDeltaTime\<close>,
  the track's events and the globals.
\<close>

definition trackStep :: "nat \<Rightarrow> event list \<Rightarrow> globals \<Rightarrow> nat \<times> nat \<times> event list \<times> globals" where
  "trackStep totalDeltaTime trackData g =
     (let ((deltaTime, n), g1) = readVariableLength g;
          totalDeltaTime' = totalDeltaTime + deltaTime;
          (header, g2) = readBytes 1 g1;
          headerByte = bufferToNumber header;
          (m, trackData', g3) =
            (if headerByte = Some 0xFF then readMetaEvent trackData totalDeltaTime' g2
             else if band headerByte 0xF0 = 0xF0 then
               readSysex trackData totalDeltaTime' headerByte g2
             else readEvent trackData totalDeltaTime' headerByte g2)
      in (n + 1 + m, totalDeltaTime', trackData', g3))"

lemma trackStep_progress: "trackStep t td g = (bytesRead, t', td', g') \<Longrightarrow> 2 \<le> bytesRead"
  by (auto simp: trackStep_def readVariableLength_def Let_def split: prod.splits)

text \<open>
  The loop of \<^verbatim>\<open>readTrack\<close>, lines 88 to 109. \<^verbatim>\<open>trackLength\<close> is an integer here (a NaN
  length never enters the loop, see \<open>readTrack\<close>) and may end below zero.
\<close>

function trackLoop :: "int \<Rightarrow> nat \<Rightarrow> event list \<Rightarrow> globals \<Rightarrow> nat \<times> event list \<times> globals" where
  "trackLoop trackLength totalDeltaTime trackData g =
     (if trackLength > 0 then
        (let (bytesRead, totalDeltaTime', trackData', g') = trackStep totalDeltaTime trackData g
         in trackLoop (trackLength - int bytesRead) totalDeltaTime' trackData' g')
      else (totalDeltaTime, trackData, g))"
  by pat_completeness auto
termination
proof (relation "measure (\<lambda>(trackLength, totalDeltaTime, trackData, g). nat trackLength)")
  show "wf (measure (\<lambda>(trackLength, totalDeltaTime, trackData, g). nat trackLength))"
    by simp
next
  fix trackLength :: int and totalDeltaTime trackData g x bytesRead y totalDeltaTime' z trackData' g'
  assume pos: "0 < trackLength"
    and "x = trackStep totalDeltaTime trackData g"
    and "(bytesRead, y) = x" and "(totalDeltaTime', z) = y" and "(trackData', g') = z"
  then have "trackStep totalDeltaTime trackData g = (bytesRead, totalDeltaTime', trackData', g')"
    by simp
  then have "2 \<le> bytesRead"
    by (rule trackStep_progress)
  with pos show "((trackLength - int bytesRead, totalDeltaTime', trackData', g'),
      trackLength, totalDeltaTime, trackData, g)
    \<in> measure (\<lambda>(trackLength, totalDeltaTime, trackData, g). nat trackLength)"
    by simp
qed

declare trackLoop.simps [simp del]

text \<open>
  The runs of that loop as a relation: \<open>trackRun\<close> holds of a start and a result when
  finitely many iterations lead from one to the other.
\<close>

inductive trackRun :: "int \<Rightarrow> nat \<Rightarrow> event list \<Rightarrow> globals \<Rightarrow> nat \<times> event list \<times> globals \<Rightarrow> bool" where
  finished: "trackLength \<le> 0 \<Longrightarrow> trackRun trackLength t td g (t, td, g)"
| iteration: "0 < trackLength \<Longrightarrow> trackStep t td g = (bytesRead, t', td', g') \<Longrightarrow>
     trackRun (trackLength - int bytesRead) t' td' g' r \<Longrightarrow> trackRun trackLength t td g r"

text \<open>\<^verbatim>\<open>"Track " + iTrack\<close>: the decimal digits of the index.\<close>

fun showNat :: "nat \<Rightarrow> string" where
  "showNat n =
     (if n < 10 then [char_of (48 + n)]
      else showNat (n div 10) @ [char_of (48 + n mod 10)])"

declare showNat.simps [simp del]

text \<open>
  \<^verbatim>\<open>outputDict[name] = trackData\<close>. The object is a plain \<^verbatim>\<open>{}\<close>: the key
  \<^verbatim>\<open>__proto__\<close> is the accessor of \<^verbatim>\<open>Object.prototype\<close>, so assigning an array to it
  replaces the prototype of \<^verbatim>\<open>outputDict\<close> and creates no own property. Every other
  key becomes (or overwrites) an own property. The final \<^verbatim>\<open>JSON.stringify\<close> writes the
  own properties only, and the events of the prototype get no \<^verbatim>\<open>timeMS\<close> (the
  \<^verbatim>\<open>for in\<close> loop sees its indices as keys, whose values have no \<^verbatim>\<open>length\<close>).
\<close>

definition dictSet :: "string \<Rightarrow> event list \<Rightarrow> (string \<rightharpoonup> event list) \<Rightarrow> (string \<rightharpoonup> event list)" where
  "dictSet name trackData d = (if name = ''__proto__'' then d else d(name \<mapsto> trackData))"

text \<open>
  \<^verbatim>\<open>readTrack\<close>, in three parts. The comparison \<^verbatim>\<open>track != trackChunk\<close> converts the
  Buffer to a string: it is equal when the four bytes are those of \<^verbatim>\<open>MTrk\<close>.
  \<open>trackBody\<close> is the loop from the \<^verbatim>\<open>trackLength\<close> read: a NaN length (no byte left
  for it) fails \<^verbatim>\<open>trackLength > 0\<close> at once. \<open>storeTrack\<close> is lines 111 to 114.
\<close>

definition trackBody :: "number \<Rightarrow> globals \<Rightarrow> nat \<times> event list \<times> globals" where
  "trackBody trackLength g =
     (case trackLength of
        None \<Rightarrow> (0, [], g)
      | Some len \<Rightarrow> trackLoop (int len) 0 [] g)"

definition storeTrack :: "nat \<Rightarrow> event list \<Rightarrow> globals \<Rightarrow> globals" where
  "storeTrack iTrack trackData g =
     (let trackNameDefault = ''Track '' @ showNat iTrack;
          g' = (if tempTrackName g = '''' then g\<lparr>tempTrackName := trackNameDefault\<rparr> else g)
      in g'\<lparr>outputDict := dictSet (tempTrackName g') trackData (outputDict g')\<rparr>)"

definition readTrack :: "nat \<Rightarrow> globals \<Rightarrow> globals" where
  "readTrack iTrack g =
     (let (track, g1) = readBytes 4 g
      in if track \<noteq> trackChunk then g1
         else
           (let (lenBuf, g2) = readBytes 4 g1;
                trackLength = bufferToNumber lenBuf;
                g3 = g2\<lparr>tempTrackName := ''''\<rparr>;
                (totalDeltaTime, trackData, g4) = trackBody trackLength g3
            in storeTrack iTrack trackData g4))"

subsection \<open>The script\<close>

text \<open>The loop of lines 301 to 304: \<open>k\<close> reads of two bytes.\<close>

primrec readHeaderVals :: "nat \<Rightarrow> globals \<Rightarrow> byte list list \<times> globals" where
  "readHeaderVals 0 g = ([], g)"
| "readHeaderVals (Suc k) g =
     (let (headerVal, g1) = readBytes 2 g;
          (rest, g2) = readHeaderVals k g1
      in (headerVal # rest, g2))"

text \<open>
  The time annotation of lines 335 to 346, on the own properties of \<^verbatim>\<open>outputDict\<close>:
  every event gets \<^verbatim>\<open>timeMS = time * msPerTick\<close> (\<^verbatim>\<open>time\<close> is never \<^verbatim>\<open>null\<close>).
\<close>

definition annotate :: "jsnum \<Rightarrow> (string \<rightharpoonup> event list) \<Rightarrow> (string \<rightharpoonup> (event \<times> jsnum) list)" where
  "annotate msPerTick d =
     (\<lambda>name. map_option (map (\<lambda>e. (e, jsmul (Fin (real (evTime e))) msPerTick))) (d name))"

text \<open>
  How a run ends: \<^verbatim>\<open>process.exit(1)\<close>, the TypeError of \<^verbatim>\<open>bufferToNumber(undefined)\<close>
  (a header chunk with fewer than three fields), or the object handed to
  \<^verbatim>\<open>JSON.stringify\<close>, each event with its \<^verbatim>\<open>timeMS\<close>.
\<close>

datatype outcome = Exit1 | TypeError | Done "string \<rightharpoonup> (event \<times> jsnum) list"

text \<open>
  The script, lines 280 to 346, in four parts. \<open>applyArguments\<close> is lines 280 to 286:
  the arguments are the file's bytes and \<^verbatim>\<open>parseFloat(process.argv[4])\<close> when there is a
  fifth argument. \<open>readHeader\<close> is lines 288 to 320: it ends the run, or gives
  \<^verbatim>\<open>numTracks\<close>. The loop of line 301 runs while \<^verbatim>\<open>i < headerLength / 2\<close>:
  \<open>(headerLength + 1) div 2\<close> times, never for NaN. \<open>readTracks\<close> is the loop of line
  322 (no iteration for a NaN \<^verbatim>\<open>numTracks\<close>), and \<open>annotateTimes\<close> lines 329 to 346.
\<close>

definition applyArguments :: "byte list \<Rightarrow> jsnum option \<Rightarrow> globals \<Rightarrow> globals" where
  "applyArguments file bpmArg g =
     (let g1 = (case bpmArg of
                  None \<Rightarrow> g
                | Some bpm \<Rightarrow>
                    g\<lparr>overrideTempoBPM := bpm, overrideTempo := jsdiv (Fin 60000000) bpm\<rparr>)
      in g1\<lparr>bytes := file\<rparr>)"

definition readHeader :: "globals \<Rightarrow> outcome + number \<times> globals" where
  "readHeader g =
     (let (header, g1) = readBytes 4 g
      in if header \<noteq> headerChunk then Inl Exit1
         else
           (let (lenBuf, g2) = readBytes 4 g1;
                headerLength = bufferToNumber lenBuf;
                (headerVals, g3) =
                  readHeaderVals (case headerLength of None \<Rightarrow> 0 | Some n \<Rightarrow> (n + 1) div 2) g2
            in if length headerVals < 3 then Inl TypeError
               else
                 (let numTracks = bufferToNumber (headerVals ! 1);
                      g4 = g3\<lparr>division := bufferToNumber (headerVals ! 2)\<rparr>
                  in if band (division g4) 0x8000 \<noteq> 0 then Inl Exit1
                     else Inr (numTracks, g4))))"

definition readTracks :: "number \<Rightarrow> globals \<Rightarrow> globals" where
  "readTracks numTracks g =
     fold readTrack [0..<(case numTracks of None \<Rightarrow> 0 | Some n \<Rightarrow> n)] g"

definition annotateTimes :: "globals \<Rightarrow> string \<rightharpoonup> (event \<times> jsnum) list" where
  "annotateTimes g =
     (let g' = (if jsgt0 (overrideTempo g) then g\<lparr>tempo := overrideTempo g\<rparr> else g);
          msPerTick = jsdiv (jsdiv (tempo g') (numOf (division g'))) (Fin 1000)
      in annotate msPerTick (outputDict g'))"

definition script :: "globals \<Rightarrow> byte list \<Rightarrow> jsnum option \<Rightarrow> outcome" where
  "script g file bpmArg =
     (case readHeader (applyArguments file bpmArg g) of
        Inl stop \<Rightarrow> stop
      | Inr (numTracks, g') \<Rightarrow> Done (annotateTimes (readTracks numTracks g')))"

text \<open>A run of the program: the script from the initial values of the globals.\<close>

definition main :: "byte list \<Rightarrow> jsnum option \<Rightarrow> outcome" where
  "main file bpmArg = script initialGlobals file bpmArg"


subsection \<open>The canonical variable-length encoder\<close>

text \<open>
  The script only decodes. For the round-trip law, the encoder follows the MIDI
  file format's definition of a variable-length quantity: the value in groups of
  seven bits, most significant group first, no leading zero group, the high bit set
  on every byte but the last. \<open>vlqPrefix\<close> gives the bytes before the last one.
\<close>

fun vlqPrefix :: "nat \<Rightarrow> byte list" where
  "vlqPrefix q = (if q = 0 then [] else vlqPrefix (q div 128) @ [of_nat (128 + q mod 128)])"

declare vlqPrefix.simps [simp del]

definition encodeVariableLength :: "nat \<Rightarrow> byte list" where
  "encodeVariableLength v = vlqPrefix (v div 128) @ [of_nat (v mod 128)]"

subsection \<open>What the script sees at an offset\<close>

text \<open>
  For the statements below: the number a read of one byte gives \<open>k\<close> bytes after the
  position, the variable-length quantity (value and byte count) decoded from there,
  and the falsy values of \<^verbatim>\<open>runningStatus\<close> (\<^verbatim>\<open>null\<close>, NaN and 0).
\<close>

definition byteAt :: "globals \<Rightarrow> nat \<Rightarrow> number" where
  "byteAt g k = bufferToNumber (take 1 (drop (byteIndex g + k) (bytes g)))"

definition vlAt :: "globals \<Rightarrow> nat \<Rightarrow> nat \<times> nat" where
  "vlAt g k = fst (readVariableLength (g\<lparr>byteIndex := byteIndex g + k\<rparr>))"

definition noRunningStatus :: "number option \<Rightarrow> bool" where
  "noRunningStatus rs = (case rs of Some (Some s) \<Rightarrow> s = 0 | _ \<Rightarrow> True)"

subsection \<open>The events of a file, in parse order\<close>

text \<open>
  For the statements about the events a run meets. \<open>trackPositions\<close> lists the
  globals at the head of each iteration of the loop of \<^verbatim>\<open>readTrack\<close>, in order: the
  position of every event the loop decodes, with the state it is decoded in.
  \<open>trackIterations\<close> are those of a call of \<^verbatim>\<open>readTrack\<close> (none when the track chunk
  is missing or the length is NaN), and \<open>fileIterations\<close> those of the calls for the
  given track indices, one track after the other.
\<close>

function trackPositions :: "int \<Rightarrow> nat \<Rightarrow> event list \<Rightarrow> globals \<Rightarrow> globals list" where
  "trackPositions trackLength totalDeltaTime trackData g =
     (if trackLength > 0 then
        (let (bytesRead, totalDeltaTime', trackData', g') = trackStep totalDeltaTime trackData g
         in g # trackPositions (trackLength - int bytesRead) totalDeltaTime' trackData' g')
      else [])"
  by pat_completeness auto
termination
proof (relation "measure (\<lambda>(trackLength, totalDeltaTime, trackData, g). nat trackLength)")
  show "wf (measure (\<lambda>(trackLength, totalDeltaTime, trackData, g). nat trackLength))"
    by simp
next
  fix trackLength :: int and totalDeltaTime trackData g x bytesRead y totalDeltaTime' z trackData' g'
  assume pos: "0 < trackLength"
    and "x = trackStep totalDeltaTime trackData g"
    and "(bytesRead, y) = x" and "(totalDeltaTime', z) = y" and "(trackData', g') = z"
  then have "trackStep totalDeltaTime trackData g = (bytesRead, totalDeltaTime', trackData', g')"
    by simp
  then have "2 \<le> bytesRead"
    by (rule trackStep_progress)
  with pos show "((trackLength - int bytesRead, totalDeltaTime', trackData', g'),
      trackLength, totalDeltaTime, trackData, g)
    \<in> measure (\<lambda>(trackLength, totalDeltaTime, trackData, g). nat trackLength)"
    by simp
qed

declare trackPositions.simps [simp del]

definition trackIterations :: "globals \<Rightarrow> globals list" where
  "trackIterations g =
     (if take 4 (drop (byteIndex g) (bytes g)) = trackChunk then
        (case bufferToNumber (take 4 (drop (byteIndex g + 4) (bytes g))) of
           None \<Rightarrow> []
         | Some len \<Rightarrow>
             trackPositions (int len) 0 []
               (g\<lparr>byteIndex := byteIndex g + 8, tempTrackName := ''''\<rparr>))
      else [])"

fun fileIterations :: "nat list \<Rightarrow> globals \<Rightarrow> globals list" where
  "fileIterations [] g = []"
| "fileIterations (iTrack # rest) g = trackIterations g @ fileIterations rest (readTrack iTrack g)"

text \<open>
  What the bytes at such a position are. \<open>metaEventAt\<close>: after the delta time, the
  byte \<open>0xFF\<close>, a type byte and a length above 0; it gives the type and the payload
  (the bytes the buffer still has, of those the length announces). A tempo event is
  one of type \<open>0x51\<close>, with the number its payload denotes; a name event is one of
  type \<open>0x03\<close> whose payload has a non-zero byte, with the payload as a string.
\<close>

definition metaEventAt :: "globals \<Rightarrow> (number \<times> byte list) option" where
  "metaEventAt g =
     (let n = snd (vlAt g 0);
          (len, k) = vlAt g (n + 2)
      in if byteAt g n = Some 0xFF \<and> 0 < len
         then Some (byteAt g (n + 1), take len (drop (byteIndex g + n + 2 + k) (bytes g)))
         else None)"

definition tempoEventAt :: "globals \<Rightarrow> jsnum option" where
  "tempoEventAt g =
     (case metaEventAt g of
        Some (ty, payload) \<Rightarrow>
          if ty = Some 0x51 then Some (numOf (bufferToNumber payload)) else None
      | None \<Rightarrow> None)"


text \<open>The value a list of assignments leaves in a variable that held \<open>d\<close>.\<close>

definition lastOr :: "'a \<Rightarrow> 'a list \<Rightarrow> 'a" where
  "lastOr d xs = (if xs = [] then d else last xs)"

section \<open>Properties\<close>

subsection \<open>Reads change the position only\<close>

lemma readBytes_eq: "readBytes n g = (take n (drop (byteIndex g) (bytes g)), g\<lparr>byteIndex := byteIndex g + n\<rparr>)"
  by (simp add: readBytes_def)

lemma rvlLoop_frame:
  "rvlLoop r b c g = ((r', b', c'), g') \<Longrightarrow>
     \<exists>k. c' = c + k \<and> g' = g\<lparr>byteIndex := byteIndex g + k\<rparr>"
proof (induction r b c g rule: rvlLoop.induct)
  case (1 retVal byte byteCount g)
  show ?case
  proof (cases "band byte 0x80 \<noteq> 0 \<and> byteCount < 3")
    case True
    have rb: "(take 1 (drop (byteIndex g) (bytes g)), g\<lparr>byteIndex := byteIndex g + 1\<rparr>) = readBytes 1 g"
      by (simp add: readBytes_def)
    from "1.prems" True
    have run: "rvlLoop (push_bit 7 retVal OR band byte 0x7F)
            (bufferToNumber (take 1 (drop (byteIndex g) (bytes g)))) (byteCount + 1)
            (g\<lparr>byteIndex := byteIndex g + 1\<rparr>) = ((r', b', c'), g')"
      by (simp add: rvlLoop.simps [of retVal byte byteCount g] readBytes_def)
    from "1.IH" [OF True refl refl rb run] show ?thesis
      by auto
  next
    case False
    with "1.prems" show ?thesis
      by (auto simp: rvlLoop.simps [of retVal byte byteCount g] split: if_splits)
  qed
qed

lemma rvlLoop_bound:
  "rvlLoop r b c g = ((r', b', c'), g') \<Longrightarrow> c \<le> 3 \<Longrightarrow> c' \<le> 3"
proof (induction r b c g rule: rvlLoop.induct)
  case (1 retVal byte byteCount g)
  show ?case
  proof (cases "band byte 0x80 \<noteq> 0 \<and> byteCount < 3")
    case True
    have rb: "(take 1 (drop (byteIndex g) (bytes g)), g\<lparr>byteIndex := byteIndex g + 1\<rparr>) = readBytes 1 g"
      by (simp add: readBytes_def)
    from "1.prems" True
    have run: "rvlLoop (push_bit 7 retVal OR band byte 0x7F)
            (bufferToNumber (take 1 (drop (byteIndex g) (bytes g)))) (byteCount + 1)
            (g\<lparr>byteIndex := byteIndex g + 1\<rparr>) = ((r', b', c'), g')"
      by (simp add: rvlLoop.simps [of retVal byte byteCount g] readBytes_def)
    from "1.IH" [OF True refl refl rb run] True show ?thesis
      by simp
  next
    case False
    with "1.prems" show ?thesis
      by (auto simp: rvlLoop.simps [of retVal byte byteCount g] split: if_splits)
  qed
qed

lemma readVariableLength_frame:
  "readVariableLength g = ((v, n), g') \<Longrightarrow> 1 \<le> n \<and> n \<le> 4 \<and> g' = g\<lparr>byteIndex := byteIndex g + n\<rparr>"
proof -
  assume a: "readVariableLength g = ((v, n), g')"
  obtain r b c g2 where l: "rvlLoop 0 (bufferToNumber (take 1 (drop (byteIndex g) (bytes g)))) 0
      (g\<lparr>byteIndex := byteIndex g + 1\<rparr>) = ((r, b, c), g2)"
    by (metis prod_cases3 surj_pair)
  from a l have n: "n = c + 1" and g': "g' = g2"
    by (simp_all add: readVariableLength_def readBytes_def)
  from rvlLoop_frame [OF l] rvlLoop_bound [OF l] n g' show ?thesis
    by auto
qed

subsection \<open>The byte reader\<close>

text \<open>
  Claim C3, as the code has it: \<^verbatim>\<open>readBytes\<close> has no failure. A call for \<open>n\<close> bytes
  returns the bytes from the position up to the end of the buffer, at most \<open>n\<close> of
  them (fewer than asked for, or none, when fewer remain), and moves the position by
  \<open>n\<close> whatever remained; nothing else changes.
\<close>

theorem readBytes_clamps:
  "readBytes n g = (buf, g') \<Longrightarrow>
     length buf = min n (length (bytes g) - byteIndex g) \<and>
     (\<forall>i < length buf. buf ! i = bytes g ! (byteIndex g + i)) \<and>
     g' = g\<lparr>byteIndex := byteIndex g + n\<rparr>"
  by (auto simp: readBytes_def)

theorem readBytes_clamps_witness:
  "readBytes 4 (initialGlobals\<lparr>bytes := [1, 2, 3]\<rparr>)
     = ([1, 2, 3], initialGlobals\<lparr>bytes := [1, 2, 3], byteIndex := 4\<rparr>) \<and>
   length [1, 2, 3 :: byte] = min 4 (length (bytes (initialGlobals\<lparr>bytes := [1, 2, 3]\<rparr>))
      - byteIndex (initialGlobals\<lparr>bytes := [1, 2, 3]\<rparr>))"
  using readBytes_clamps [of 4 "initialGlobals\<lparr>bytes := [1, 2, 3]\<rparr>" "[1, 2, 3]"
      "initialGlobals\<lparr>bytes := [1, 2, 3], byteIndex := 4\<rparr>"]
  by (simp add: readBytes_def initialGlobals_def)

lemma and_le_nat: "(h::nat) AND m \<le> h"
  by (metis AND_upper1 of_nat_0_le_iff of_nat_and_eq of_nat_le_iff)

subsection \<open>Channel events\<close>

text \<open>
  Claim C6: when the effective status has high nibble \<open>0xE\<close>, the event is a pitchwheel
  whose value is (second data byte \<^verbatim>\<open><< 7\<close>) \<^verbatim>\<open>|\<close> first data byte. First conjunct: the
  dispatched byte is the status, and both data bytes are read. Second conjunct: the
  dispatched byte is the first data byte, under a running status of that kind. The
  bytes \<^verbatim>\<open>E0 00 40\<close> give 8192 (the witness).
\<close>

theorem pitchwheel_value:
  "(h AND 0xF0 = 0xE0 \<longrightarrow>
      readEvent td t (Some h) g =
        (2, td @ [Pitchwheel t (push_bit 7 (toInt32 (byteAt g 1)) OR toInt32 (byteAt g 0))],
         g\<lparr>byteIndex := byteIndex g + 2, runningStatus := Some (Some h)\<rparr>)) \<and>
   (d < 0x80 \<and> runningStatus g = Some (Some s) \<and> s AND 0xF0 = 0xE0 \<longrightarrow>
      readEvent td t (Some d) g =
        (1, td @ [Pitchwheel t (push_bit 7 (toInt32 (byteAt g 0)) OR d)],
         g\<lparr>byteIndex := byteIndex g + 1\<rparr>))"
proof (intro conjI impI)
  assume h: "h AND 0xF0 = 0xE0"
  have "h AND 0xF0 \<le> h"
    by (rule and_le_nat)
  with h have "\<not> h < 0x80"
    by simp
  with h show "readEvent td t (Some h) g =
        (2, td @ [Pitchwheel t (push_bit 7 (toInt32 (byteAt g 1)) OR toInt32 (byteAt g 0))],
         g\<lparr>byteIndex := byteIndex g + 2, runningStatus := Some (Some h)\<rparr>)"
    by (simp add: readEvent_def resolveStatus_def jslt_def band_def secondByte_def
        readBytes_def byteAt_def)
next
  assume a: "d < 0x80 \<and> runningStatus g = Some (Some s) \<and> s AND 0xF0 = 0xE0"
  have "s AND 0xF0 \<le> s"
    by (rule and_le_nat)
  with a have "s \<noteq> 0"
    by simp
  with a show "readEvent td t (Some d) g =
        (1, td @ [Pitchwheel t (push_bit 7 (toInt32 (byteAt g 0)) OR d)],
         g\<lparr>byteIndex := byteIndex g + 1\<rparr>)"
    by (simp add: readEvent_def resolveStatus_def jslt_def band_def secondByte_def
        readBytes_def byteAt_def toInt32_def)
qed

theorem pitchwheel_value_witness:
  "readEvent [] 0 (Some 0xE0) (initialGlobals\<lparr>bytes := [0x00, 0x40]\<rparr>) =
     (2, [Pitchwheel 0 8192],
      initialGlobals\<lparr>bytes := [0x00, 0x40], byteIndex := 2, runningStatus := Some (Some 0xE0)\<rparr>) \<and>
   readEvent [] 5 (Some 0x01) (initialGlobals\<lparr>bytes := [0x7F], runningStatus := Some (Some 0xE3)\<rparr>) =
     (1, [Pitchwheel 5 16257],
      initialGlobals\<lparr>bytes := [0x7F], runningStatus := Some (Some 0xE3), byteIndex := 1\<rparr>)"
  using pitchwheel_value [of "0xE0" "[]" 0 "initialGlobals\<lparr>bytes := [0x00, 0x40]\<rparr>" 0 0]
    pitchwheel_value [of 0 "[]" 5 "initialGlobals\<lparr>bytes := [0x7F], runningStatus := Some (Some 0xE3)\<rparr>" "0x01" "0xE3"]
  by (simp add: byteAt_def initialGlobals_def bufferToNumber_def toInt32_def)

lemma readVariableLength_eq:
  "readVariableLength g =
     (fst (readVariableLength g), g\<lparr>byteIndex := byteIndex g + snd (fst (readVariableLength g))\<rparr>)"
proof -
  obtain v n g' where r: "readVariableLength g = ((v, n), g')"
    by (metis surj_pair)
  with readVariableLength_frame [OF r] show ?thesis
    by simp
qed

lemma rvlLoop_cong:
  "bytes g = bytes h \<Longrightarrow> byteIndex g = byteIndex h \<Longrightarrow>
     fst (rvlLoop r b c g) = fst (rvlLoop r b c h)"
proof (induction r b c g arbitrary: h rule: rvlLoop.induct)
  case (1 retVal byte byteCount g)
  show ?case
  proof (cases "band byte 0x80 \<noteq> 0 \<and> byteCount < 3")
    case True
    have rb: "(take 1 (drop (byteIndex g) (bytes g)), g\<lparr>byteIndex := byteIndex g + 1\<rparr>) = readBytes 1 g"
      by (simp add: readBytes_def)
    have "fst (rvlLoop (push_bit 7 retVal OR band byte 0x7F)
            (bufferToNumber (take 1 (drop (byteIndex g) (bytes g)))) (byteCount + 1)
            (g\<lparr>byteIndex := byteIndex g + 1\<rparr>)) =
          fst (rvlLoop (push_bit 7 retVal OR band byte 0x7F)
            (bufferToNumber (take 1 (drop (byteIndex g) (bytes g)))) (byteCount + 1)
            (h\<lparr>byteIndex := byteIndex h + 1\<rparr>))"
      by (rule "1.IH" [OF True refl refl rb]) (simp_all add: "1.prems")
    with True "1.prems" show ?thesis
      by (simp add: rvlLoop.simps [of retVal byte byteCount g]
          rvlLoop.simps [of retVal byte byteCount h] readBytes_def)
  next
    case False
    then show ?thesis
      by (auto simp: rvlLoop.simps [of retVal byte byteCount g]
          rvlLoop.simps [of retVal byte byteCount h])
  qed
qed

lemma readVariableLength_cong:
  "bytes g = bytes h \<Longrightarrow> byteIndex g = byteIndex h \<Longrightarrow>
     fst (readVariableLength g) = fst (readVariableLength h)"
proof -
  assume a: "bytes g = bytes h" "byteIndex g = byteIndex h"
  have "fst (rvlLoop 0 (bufferToNumber (take 1 (drop (byteIndex g) (bytes g)))) 0
            (g\<lparr>byteIndex := byteIndex g + 1\<rparr>)) =
        fst (rvlLoop 0 (bufferToNumber (take 1 (drop (byteIndex g) (bytes g)))) 0
            (h\<lparr>byteIndex := byteIndex h + 1\<rparr>))"
    by (rule rvlLoop_cong) (simp_all add: a)
  with a show ?thesis
    by (auto simp: readVariableLength_def readBytes_def split: prod.splits)
qed

lemma readVariableLength_vlAt:
  "bytes h = bytes g \<Longrightarrow> byteIndex h = byteIndex g + k \<Longrightarrow>
   readVariableLength h = (vlAt g k, h\<lparr>byteIndex := byteIndex h + snd (vlAt g k)\<rparr>)"
proof -
  assume a: "bytes h = bytes g" "byteIndex h = byteIndex g + k"
  have "fst (readVariableLength h) = vlAt g k"
    unfolding vlAt_def by (rule readVariableLength_cong) (simp_all add: a)
  with readVariableLength_eq [of h] show ?thesis
    by simp
qed

subsection \<open>Meta events\<close>

text \<open>
  Claim C7: \<^verbatim>\<open>readMetaEvent\<close> leaves \<^verbatim>\<open>runningStatus\<close> cleared, and clears it before it
  reads anything (its result is the same whatever the running status was); it appends
  a \<^verbatim>\<open>trackEnd\<close> event at the accumulated tick time exactly when the type byte is
  \<open>0x2F\<close> and the length decoded after it is 0, and appends nothing otherwise.
\<close>

theorem readMetaEvent_trackEnd:
  "readMetaEvent td t g = (n, td', g') \<Longrightarrow>
     runningStatus g' = None \<and>
     readMetaEvent td t (g\<lparr>runningStatus := rs\<rparr>) = (n, td', g') \<and>
     td' = (if byteAt g 0 = Some 0x2F \<and> fst (vlAt g 1) = 0 then td @ [TrackEnd t] else td)"
proof -
  assume a: "readMetaEvent td t g = (n, td', g')"
  let ?g1 = "g\<lparr>runningStatus := None, byteIndex := byteIndex g + 1\<rparr>"
  have rv: "readVariableLength ?g1 = (vlAt g 1, ?g1\<lparr>byteIndex := byteIndex ?g1 + snd (vlAt g 1)\<rparr>)"
    by (rule readVariableLength_vlAt) simp_all
  obtain v k where vk: "vlAt g 1 = (v, k)"
    by (cases "vlAt g 1")
  have same: "readMetaEvent td t (g\<lparr>runningStatus := rs\<rparr>) = readMetaEvent td t g"
    by (simp add: readMetaEvent_def readBytes_def)
  from a rv vk have "runningStatus g' = None"
    by (auto simp: readMetaEvent_def readBytes_def Let_def split: if_splits)
  moreover from a rv vk
  have "td' = (if byteAt g 0 = Some 0x2F \<and> fst (vlAt g 1) = 0 then td @ [TrackEnd t] else td)"
    by (auto simp: readMetaEvent_def readBytes_def Let_def byteAt_def split: if_splits)
  ultimately show ?thesis
    using a same by simp
qed

theorem readMetaEvent_trackEnd_witness:
  "readMetaEvent [] 7 (initialGlobals\<lparr>bytes := [0x2F, 0x00], runningStatus := Some (Some 0x90)\<rparr>) =
     (2, [TrackEnd 7], initialGlobals\<lparr>bytes := [0x2F, 0x00], runningStatus := None, byteIndex := 2\<rparr>) \<and>
   readMetaEvent [] 7 (initialGlobals\<lparr>bytes := [0x2F, 0x00]\<rparr>) =
     (2, [TrackEnd 7], initialGlobals\<lparr>bytes := [0x2F, 0x00], runningStatus := None, byteIndex := 2\<rparr>)"
proof -
  let ?g = "initialGlobals\<lparr>bytes := [0x2F, 0x00], runningStatus := Some (Some 0x90)\<rparr>"
  let ?g' = "initialGlobals\<lparr>bytes := [0x2F, 0x00], runningStatus := None, byteIndex := 2\<rparr>"
  have run: "readMetaEvent [] 7 ?g = (2, [TrackEnd 7], ?g')"
    by (simp add: readMetaEvent_def readBytes_def readVariableLength_def bufferToNumber_def
        band_def initialGlobals_def rvlLoop.simps)
  from readMetaEvent_trackEnd [OF run, of None] run show ?thesis
    by (simp add: initialGlobals_def)
qed

subsection \<open>The loop of a track\<close>

lemma trackLoop_runs: "trackRun len t td g (trackLoop len t td g)"
proof (induction len t td g rule: trackLoop.induct)
  case (1 trackLength totalDeltaTime trackData g)
  show ?case
  proof (cases "0 < trackLength")
    case True
    obtain bytesRead t' td' g' where
      step: "trackStep totalDeltaTime trackData g = (bytesRead, t', td', g')"
      by (metis prod_cases4)
    have "trackRun (trackLength - int bytesRead) t' td' g'
        (trackLoop (trackLength - int bytesRead) t' td' g')"
      by (rule "1.IH" [OF True step [symmetric] refl refl refl])
    with True step show ?thesis
      by (simp add: trackLoop.simps [of trackLength totalDeltaTime trackData g]
          trackRun.iteration)
  next
    case False
    then show ?thesis
      by (simp add: trackLoop.simps [of trackLength totalDeltaTime trackData g]
          trackRun.finished)
  qed
qed

lemma trackStep_unknown:
  assumes hb: "jslt (byteAt g (snd (vlAt g 0))) 0x80"
    and rs: "noRunningStatus (runningStatus g)"
  shows "trackStep t td g =
    (snd (vlAt g 0) + 1, t + fst (vlAt g 0), td,
     g\<lparr>byteIndex := byteIndex g + snd (vlAt g 0) + 1\<rparr>)"
proof -
  obtain dt n where vl: "vlAt g 0 = (dt, n)"
    by (cases "vlAt g 0")
  have rv: "readVariableLength g = (vlAt g 0, g\<lparr>byteIndex := byteIndex g + snd (vlAt g 0)\<rparr>)"
    using readVariableLength_vlAt [of g g 0] by simp
  from hb vl obtain x where x: "byteAt g n = Some x" "x < 0x80"
    by (auto simp: jslt_def split: option.splits)
  have "x AND 0xF0 \<le> x"
    by (rule and_le_nat)
  with x have nosys: "x \<noteq> 0xFF" "x AND 0xF0 \<noteq> 0xF0"
    by auto
  from rs have res: "resolveStatus (Some x) (runningStatus g) = None"
    using x by (auto simp: resolveStatus_def noRunningStatus_def jslt_def split: option.splits)
  from x have bx: "bufferToNumber (take (Suc 0) (drop (byteIndex g + n) (bytes g))) = Some x"
    by (simp add: byteAt_def)
  show ?thesis
    using nosys res bx
    by (simp add: trackStep_def rv vl readBytes_def band_def readEvent_def)
qed

text \<open>
  Claim C4: in an iteration whose status byte has its high bit clear while no running
  status is set, \<^verbatim>\<open>readEvent\<close> returns 0 and appends no event, and the iteration
  still counts the bytes of the delta time and the status byte: \<^verbatim>\<open>trackLength\<close>
  goes down by at least 2. Every iteration counts at least 2 bytes, and the loop
  ends from every start: \<open>trackLoop\<close> is the result of a finite run.
\<close>

theorem unknown_event_progress:
  "(let deltaTime = fst (vlAt g 0); n = snd (vlAt g 0); headerByte = byteAt g n;
        g2 = g\<lparr>byteIndex := byteIndex g + n + 1\<rparr>
    in jslt headerByte 0x80 \<and> noRunningStatus (runningStatus g) \<longrightarrow>
         readEvent td (t + deltaTime) headerByte g2 = (0, td, g2) \<and>
         trackStep t td g = (n + 1, t + deltaTime, td, g2) \<and>
         1 \<le> n \<and>
         (0 < len \<longrightarrow>
            trackLoop len t td g = trackLoop (len - int (n + 1)) (t + deltaTime) td g2)) \<and>
   (\<forall>bytesRead t' td' g'. trackStep t td g = (bytesRead, t', td', g') \<longrightarrow> 2 \<le> bytesRead) \<and>
   trackRun len t td g (trackLoop len t td g)"
proof -
  have first: "readEvent td (t + fst (vlAt g 0)) (byteAt g (snd (vlAt g 0)))
        (g\<lparr>byteIndex := byteIndex g + snd (vlAt g 0) + 1\<rparr>) =
        (0, td, g\<lparr>byteIndex := byteIndex g + snd (vlAt g 0) + 1\<rparr>)"
    if "jslt (byteAt g (snd (vlAt g 0))) 0x80" "noRunningStatus (runningStatus g)"
    using that
    by (auto simp: readEvent_def resolveStatus_def noRunningStatus_def split: option.splits)
  have rv: "readVariableLength g = (vlAt g 0, g\<lparr>byteIndex := byteIndex g + snd (vlAt g 0)\<rparr>)"
    using readVariableLength_vlAt [of g g 0] by simp
  have n: "1 \<le> snd (vlAt g 0)"
    using readVariableLength_frame [of g "fst (vlAt g 0)" "snd (vlAt g 0)"] rv by simp
  have loop: "trackLoop len t td g =
      trackLoop (len - int (snd (vlAt g 0) + 1)) (t + fst (vlAt g 0)) td
        (g\<lparr>byteIndex := byteIndex g + snd (vlAt g 0) + 1\<rparr>)"
    if "jslt (byteAt g (snd (vlAt g 0))) 0x80" "noRunningStatus (runningStatus g)" "0 < len"
    using that trackStep_unknown [OF that(1) that(2), of t td]
    by (simp add: trackLoop.simps [of len t td g])
  show ?thesis
    using first n loop trackStep_unknown [of g t td] trackStep_progress [of t td g]
      trackLoop_runs [of len t td g]
    by (simp add: Let_def)
qed

theorem unknown_event_progress_witness:
  "trackStep 0 [] (initialGlobals\<lparr>bytes := [0x00, 0x3C]\<rparr>) =
     (2, 0, [], initialGlobals\<lparr>bytes := [0x00, 0x3C], byteIndex := 2\<rparr>) \<and>
   trackLoop 2 0 [] (initialGlobals\<lparr>bytes := [0x00, 0x3C]\<rparr>) =
     (0, [], initialGlobals\<lparr>bytes := [0x00, 0x3C], byteIndex := 2\<rparr>) \<and>
   trackRun 2 0 [] (initialGlobals\<lparr>bytes := [0x00, 0x3C]\<rparr>)
     (0, [], initialGlobals\<lparr>bytes := [0x00, 0x3C], byteIndex := 2\<rparr>)"
proof -
  let ?g = "initialGlobals\<lparr>bytes := [0x00, 0x3C]\<rparr>"
  have vl: "vlAt ?g 0 = (0, 1)"
    by (simp add: vlAt_def readVariableLength_def readBytes_def rvlLoop.simps
        bufferToNumber_def band_def initialGlobals_def)
  have hb: "byteAt ?g 1 = Some 0x3C"
    by (simp add: byteAt_def bufferToNumber_def initialGlobals_def)
  have rs: "noRunningStatus (runningStatus ?g)"
    by (simp add: noRunningStatus_def initialGlobals_def)
  have stop: "trackLoop 0 0 [] (?g\<lparr>byteIndex := 2\<rparr>) = (0, [], ?g\<lparr>byteIndex := 2\<rparr>)"
    by (simp add: trackLoop.simps)
  note inst = unknown_event_progress [of ?g "[]" 0 2]
  from inst vl hb rs stop
  have step: "trackStep 0 [] ?g = (2, 0, [], ?g\<lparr>byteIndex := 2\<rparr>)"
    and loop: "trackLoop 2 0 [] ?g = (0, [], ?g\<lparr>byteIndex := 2\<rparr>)"
    by (simp_all add: Let_def jslt_def initialGlobals_def numeral_2_eq_2)
  from inst have "trackRun 2 0 [] ?g (trackLoop 2 0 [] ?g)"
    by simp
  with loop have "trackRun 2 0 [] ?g (0, [], ?g\<lparr>byteIndex := 2\<rparr>)"
    by simp
  with step loop show ?thesis
    by (simp add: initialGlobals_def)
qed

lemma and_127: "(x::nat) AND 127 = x mod 128"
proof -
  have "(127::nat) = mask 7"
    by (simp add: mask_eq_exp_minus_1)
  then have "x AND 127 = take_bit 7 x"
    by (simp add: take_bit_eq_mask)
  then show ?thesis
    by (simp add: take_bit_eq_mod)
qed

lemma and_128: "(x::nat) AND 128 = 0 \<longleftrightarrow> even (x div 128)"
proof -
  have "x AND 2 ^ 7 = 0 \<longleftrightarrow> \<not> bit x 7"
    by (rule and_exp_eq_0_iff_not_bit)
  then show ?thesis
    by (simp add: bit_iff_odd)
qed

lemma shift_or: "x < 128 \<Longrightarrow> push_bit 7 (r::nat) OR x = r * 128 + x"
proof -
  assume x: "x < 128"
  then have tx: "take_bit 7 x = x"
    by (simp add: take_bit_nat_eq_self)
  have "push_bit 7 r AND take_bit 7 x = 0"
    by (rule bit_eqI) (simp add: bit_simps)
  with tx have "push_bit 7 r AND x = 0"
    by simp
  then have "push_bit 7 r + x = push_bit 7 r OR x"
    by (rule disjunctive_add_eq_or)
  then show ?thesis
    by (simp add: push_bit_eq_mult)
qed

lemma unat_byte: "x < 256 \<Longrightarrow> unat (of_nat x :: byte) = x"
  by (simp add: unat_of_nat)

subsection \<open>Variable-length quantities\<close>

lemma rvlLoop_continue:
  "x < 128 \<Longrightarrow> c < 3 \<Longrightarrow>
     rvlLoop r (Some (128 + x)) c g =
       rvlLoop (r * 128 + x) (byteAt g 0) (c + 1) (g\<lparr>byteIndex := byteIndex g + 1\<rparr>)"
proof -
  assume x: "x < 128" and c: "c < 3"
  from x have odd: "odd ((128 + x) div 128)"
    by simp
  then have top: "(128 + x) AND 128 \<noteq> 0"
    by (simp only: and_128 not_False_eq_True)
  from x have low: "(128 + x) AND 127 = x"
    by (simp add: and_127)
  from x have or: "push_bit 7 r OR x = r * 128 + x"
    by (rule shift_or)
  show ?thesis
    using top low or c
    by (simp add: rvlLoop.simps [of r "Some (128 + x)" c g] band_def readBytes_def byteAt_def)
qed

lemma rvlLoop_stop: "a < 128 \<Longrightarrow> rvlLoop r (Some a) c g = ((r, Some a, c), g)"
  by (simp add: rvlLoop.simps [of r "Some a" c g] band_def and_128)

lemma rvlLoop_cap: "rvlLoop r b 3 g = ((r, b, 3), g)"
  by (simp add: rvlLoop.simps [of r b 3 g])

lemma byteAt_shift: "byteAt (g\<lparr>byteIndex := byteIndex g + k\<rparr>) j = byteAt g (k + j)"
  by (simp add: byteAt_def add.assoc)

lemma readVariableLength_byteAt:
  "readVariableLength g =
     (let ((retVal, byte, byteCount), g2) =
            rvlLoop 0 (byteAt g 0) 0 (g\<lparr>byteIndex := byteIndex g + 1\<rparr>)
      in ((push_bit 7 retVal OR band byte 0x7F, byteCount + 1), g2))"
  by (simp add: readVariableLength_def readBytes_def byteAt_def)

lemma readVariableLength_1:
  "byteAt g 0 = Some a \<Longrightarrow> a < 128 \<Longrightarrow>
     readVariableLength g = ((a, 1), g\<lparr>byteIndex := byteIndex g + 1\<rparr>)"
  by (simp add: readVariableLength_byteAt rvlLoop_stop band_def and_127)

lemma readVariableLength_2:
  assumes "byteAt g 0 = Some (128 + b)" "b < 128" "byteAt g 1 = Some a" "a < 128"
  shows "readVariableLength g = ((b * 128 + a, 2), g\<lparr>byteIndex := byteIndex g + 2\<rparr>)"
  using assms
    rvlLoop_continue [of b 0 0 "g\<lparr>byteIndex := byteIndex g + 1\<rparr>"]
    rvlLoop_stop [of a b 1 "g\<lparr>byteIndex := byteIndex g + 2\<rparr>"]
  by (simp add: readVariableLength_byteAt byteAt_def band_def and_127 shift_or)

lemma readVariableLength_3:
  assumes "byteAt g 0 = Some (128 + c)" "c < 128" "byteAt g 1 = Some (128 + b)" "b < 128"
    "byteAt g 2 = Some a" "a < 128"
  shows "readVariableLength g =
       (((c * 128 + b) * 128 + a, 3), g\<lparr>byteIndex := byteIndex g + 3\<rparr>)"
  using assms
    rvlLoop_continue [of c 0 0 "g\<lparr>byteIndex := byteIndex g + 1\<rparr>"]
    rvlLoop_continue [of b 1 c "g\<lparr>byteIndex := byteIndex g + 2\<rparr>"]
    rvlLoop_stop [of a "c * 128 + b" 2 "g\<lparr>byteIndex := byteIndex g + 3\<rparr>"]
  by (simp add: readVariableLength_byteAt byteAt_def band_def and_127 shift_or
      numeral_2_eq_2 numeral_3_eq_3)

lemma readVariableLength_4:
  assumes "byteAt g 0 = Some (128 + d)" "d < 128" "byteAt g 1 = Some (128 + c)" "c < 128"
    "byteAt g 2 = Some (128 + b)" "b < 128" "byteAt g 3 = Some a"
  shows "readVariableLength g =
       ((((d * 128 + c) * 128 + b) * 128 + a mod 128, 4), g\<lparr>byteIndex := byteIndex g + 4\<rparr>)"
proof -
  have four: "(4::nat) = Suc (Suc (Suc (Suc 0)))"
    by simp
  show ?thesis
    using assms
      rvlLoop_continue [of d 0 0 "g\<lparr>byteIndex := byteIndex g + 1\<rparr>"]
      rvlLoop_continue [of c 1 d "g\<lparr>byteIndex := byteIndex g + 2\<rparr>"]
      rvlLoop_continue [of b 2 "d * 128 + c" "g\<lparr>byteIndex := byteIndex g + 3\<rparr>"]
      rvlLoop_cap [of "(d * 128 + c) * 128 + b" "Some a" "g\<lparr>byteIndex := byteIndex g + 4\<rparr>"]
    by (simp add: readVariableLength_byteAt byteAt_def band_def and_127 shift_or
        numeral_2_eq_2 numeral_3_eq_3 four)
qed

lemma vlqPrefix_0: "vlqPrefix 0 = []"
  by (simp add: vlqPrefix.simps)

lemma vlqPrefix_pos: "0 < q \<Longrightarrow> vlqPrefix q = vlqPrefix (q div 128) @ [of_nat (128 + q mod 128)]"
  by (simp add: vlqPrefix.simps [of q])

lemma encode_1: "v < 128 \<Longrightarrow> encodeVariableLength v = [of_nat v]"
  by (simp add: encodeVariableLength_def vlqPrefix_0)

lemma encode_2:
  "128 \<le> v \<Longrightarrow> v < 16384 \<Longrightarrow>
     encodeVariableLength v = [of_nat (128 + v div 128), of_nat (v mod 128)]"
proof -
  assume v: "128 \<le> v" "v < 16384"
  then have q: "0 < v div 128" "v div 128 < 128"
    by simp_all
  then have "vlqPrefix (v div 128) = [of_nat (128 + v div 128)]"
    by (simp add: vlqPrefix_pos vlqPrefix_0)
  then show ?thesis
    by (simp add: encodeVariableLength_def)
qed

lemma encode_3:
  "16384 \<le> v \<Longrightarrow> v < 2097152 \<Longrightarrow>
     encodeVariableLength v =
       [of_nat (128 + v div 16384), of_nat (128 + v div 128 mod 128), of_nat (v mod 128)]"
proof -
  assume v: "16384 \<le> v" "v < 2097152"
  have d: "v div 128 div 128 = v div 16384"
    by (simp add: div_mult2_eq [symmetric])
  from v have q: "0 < v div 128" "0 < v div 16384" "v div 16384 < 128"
    by simp_all
  from q d have "vlqPrefix (v div 128 div 128) = [of_nat (128 + v div 16384)]"
    by (simp add: vlqPrefix_pos [of "v div 16384"] vlqPrefix_0)
  with q have "vlqPrefix (v div 128) =
      [of_nat (128 + v div 16384), of_nat (128 + v div 128 mod 128)]"
    by (simp add: vlqPrefix_pos [of "v div 128"])
  then show ?thesis
    by (simp add: encodeVariableLength_def)
qed

lemma encode_4:
  "2097152 \<le> v \<Longrightarrow> v < 268435456 \<Longrightarrow>
     encodeVariableLength v =
       [of_nat (128 + v div 2097152), of_nat (128 + v div 16384 mod 128),
        of_nat (128 + v div 128 mod 128), of_nat (v mod 128)]"
proof -
  assume v: "2097152 \<le> v" "v < 268435456"
  have d: "v div 128 div 128 = v div 16384" "v div 16384 div 128 = v div 2097152"
    by (simp_all add: div_mult2_eq [symmetric])
  from v have q: "0 < v div 128" "0 < v div 16384" "0 < v div 2097152" "v div 2097152 < 128"
    by simp_all
  from q d have "vlqPrefix (v div 16384 div 128) = [of_nat (128 + v div 2097152)]"
    by (simp add: vlqPrefix_pos [of "v div 2097152"] vlqPrefix_0)
  with q have "vlqPrefix (v div 16384) =
      [of_nat (128 + v div 2097152), of_nat (128 + v div 16384 mod 128)]"
    by (simp add: vlqPrefix_pos [of "v div 16384"])
  with q d have "vlqPrefix (v div 128) =
      [of_nat (128 + v div 2097152), of_nat (128 + v div 16384 mod 128),
       of_nat (128 + v div 128 mod 128)]"
    by (simp add: vlqPrefix_pos [of "v div 128"])
  then show ?thesis
    by (simp add: encodeVariableLength_def)
qed

lemma byteAt_of_drop:
  assumes "drop (byteIndex g) (bytes g) = xs @ rest" "k < length xs"
  shows "byteAt g k = Some (unat (xs ! k))"
proof -
  have "drop (byteIndex g + k) (bytes g) = drop k (drop (byteIndex g) (bytes g))"
    by (simp add: add.commute)
  also have "\<dots> = drop k xs @ rest"
    using assms by simp
  also have "drop k xs = xs ! k # drop (Suc k) xs"
    using assms by (simp add: Cons_nth_drop_Suc)
  finally show ?thesis
    by (simp add: byteAt_def bufferToNumber_def)
qed

lemma unat_cont: "x < 128 \<Longrightarrow> unat (128 + of_nat x :: byte) = 128 + x"
  using unat_byte [of "128 + x"] by simp

lemma split_3: "(v div 16384 * 128 + v div 128 mod 128) * 128 + v mod 128 = (v::nat)"
proof -
  have "v div 16384 = v div 128 div 128"
    by (simp add: div_mult2_eq [symmetric])
  then have "v div 16384 * 128 + v div 128 mod 128 = v div 128"
    by simp
  then show ?thesis
    by simp
qed

lemma split_4:
  "((v div 2097152 * 128 + v div 16384 mod 128) * 128 + v div 128 mod 128) * 128
     + v mod 128 mod 128 = (v::nat)"
proof -
  have "v div 2097152 = v div 16384 div 128"
    by (simp add: div_mult2_eq [symmetric])
  then have "v div 2097152 * 128 + v div 16384 mod 128 = v div 16384"
    by simp
  with split_3 [of v] show ?thesis
    by simp
qed

text \<open>
  Claim C2: for every value below \<open>2 ^ 28\<close> (the values whose canonical encoding
  has 1 to 4 bytes), decoding the bytes of its encoding, whatever follows them in
  the buffer, returns the value and the length of the encoding, and moves the
  position by that length.
\<close>

theorem readVariableLength_roundtrip:
  assumes v: "v < 2 ^ 28"
    and enc: "drop (byteIndex g) (bytes g) = encodeVariableLength v @ rest"
  shows "readVariableLength g =
      ((v, length (encodeVariableLength v)),
       g\<lparr>byteIndex := byteIndex g + length (encodeVariableLength v)\<rparr>) \<and>
    1 \<le> length (encodeVariableLength v) \<and> length (encodeVariableLength v) \<le> 4"
proof -
  consider (one) "v < 128" | (two) "128 \<le> v" "v < 16384"
    | (three) "16384 \<le> v" "v < 2097152" | (four) "2097152 \<le> v" "v < 268435456"
    using v by fastforce
  then show ?thesis
  proof cases
    case one
    note e = encode_1 [OF one]
    have "byteAt g 0 = Some v"
      using byteAt_of_drop [OF enc, of 0] one by (simp add: e unat_byte)
    from readVariableLength_1 [OF this one] show ?thesis
      by (simp add: e)
  next
    case two
    note e = encode_2 [OF two]
    from two have lt: "v div 128 < 128" "v mod 128 < 128"
      by simp_all
    have b0: "byteAt g 0 = Some (128 + v div 128)"
      using byteAt_of_drop [OF enc, of 0] lt by (simp add: e unat_cont)
    have b1: "byteAt g 1 = Some (v mod 128)"
      using byteAt_of_drop [OF enc, of 1] lt by (simp add: e unat_byte)
    from readVariableLength_2 [OF b0 lt(1) b1 lt(2)] show ?thesis
      by (simp add: e)
  next
    case three
    note e = encode_3 [OF three]
    from three have lt: "v div 16384 < 128" "v div 128 mod 128 < 128" "v mod 128 < 128"
      by simp_all
    have b0: "byteAt g 0 = Some (128 + v div 16384)"
      using byteAt_of_drop [OF enc, of 0] lt by (simp add: e unat_cont)
    have b1: "byteAt g 1 = Some (128 + v div 128 mod 128)"
      using byteAt_of_drop [OF enc, of 1] lt by (simp add: e unat_cont)
    have b2: "byteAt g 2 = Some (v mod 128)"
      using byteAt_of_drop [OF enc, of 2] lt by (simp add: e unat_byte)
    note val = split_3 [of v]
    from readVariableLength_3 [OF b0 lt(1) b1 lt(2) b2 lt(3)] val show ?thesis
      by (simp add: e)
  next
    case four
    note e = encode_4 [OF four]
    from four have lt: "v div 2097152 < 128" "v div 16384 mod 128 < 128"
      "v div 128 mod 128 < 128" "v mod 128 < 128"
      by simp_all
    have b0: "byteAt g 0 = Some (128 + v div 2097152)"
      using byteAt_of_drop [OF enc, of 0] lt by (simp add: e unat_cont)
    have b1: "byteAt g 1 = Some (128 + v div 16384 mod 128)"
      using byteAt_of_drop [OF enc, of 1] lt by (simp add: e unat_cont)
    have b2: "byteAt g 2 = Some (128 + v div 128 mod 128)"
      using byteAt_of_drop [OF enc, of 2] lt by (simp add: e unat_cont)
    have b3: "byteAt g 3 = Some (v mod 128)"
      using byteAt_of_drop [OF enc, of 3] lt by (simp add: e unat_byte)
    note val = split_4 [of v]
    from readVariableLength_4 [OF b0 lt(1) b1 lt(2) b2 lt(3) b3] val show ?thesis
      by (simp add: e)
  qed
qed

theorem readVariableLength_roundtrip_witness:
  "encodeVariableLength 268435455 = [0xFF, 0xFF, 0xFF, 0x7F] \<and>
   readVariableLength (initialGlobals\<lparr>bytes := [0xFF, 0xFF, 0xFF, 0x7F, 0x90]\<rparr>) =
     ((268435455, 4), initialGlobals\<lparr>bytes := [0xFF, 0xFF, 0xFF, 0x7F, 0x90], byteIndex := 4\<rparr>)"
proof -
  have e: "encodeVariableLength 268435455 = [0xFF, 0xFF, 0xFF, 0x7F]"
    by (simp add: encode_4)
  have v: "(268435455::nat) < 2 ^ 28"
    by simp
  have d: "drop (byteIndex (initialGlobals\<lparr>bytes := [0xFF, 0xFF, 0xFF, 0x7F, 0x90]\<rparr>))
      (bytes (initialGlobals\<lparr>bytes := [0xFF, 0xFF, 0xFF, 0x7F, 0x90]\<rparr>)) =
      encodeVariableLength 268435455 @ [0x90]"
    by (simp add: e initialGlobals_def)
  from readVariableLength_roundtrip [OF v d] e show ?thesis
    by (simp add: initialGlobals_def)
qed

subsection \<open>Binary64 rounding\<close>

lemma roundEven_of_int: "roundEven (of_int n) = n"
  by (simp add: roundEven_def)

lemma roundEven_ge: "of_int n \<le> y \<Longrightarrow> n \<le> roundEven y"
  unfolding roundEven_def Let_def by (auto simp: le_floor_iff; linarith)

lemma roundEven_le: "y \<le> of_int n \<Longrightarrow> roundEven y \<le> n"
  unfolding roundEven_def Let_def by (auto; linarith)

lemma floor_log2:
  "0 < a \<Longrightarrow> 2 powr of_int k \<le> a \<Longrightarrow> a < 2 powr (of_int k + 1) \<Longrightarrow> \<lfloor>log 2 a\<rfloor> = k"
  by (simp add: floor_log_eq_powr_iff)

text \<open>
  In the normal range the result is the multiple of \<open>2 ^ (k - 52)\<close> nearest to \<open>x\<close>,
  where \<open>2 ^ k \<le> x < 2 ^ (k + 1)\<close>.
\<close>

lemma round64_normal:
  assumes lo: "2 powr of_int k \<le> x" and hi: "x < 2 powr (of_int k + 1)"
    and k: "- 1022 \<le> k" "k \<le> 1022"
  shows "round64 x =
    Fin (of_int (roundEven (x / 2 powr (of_int k - 52))) * 2 powr (of_int k - 52))"
proof -
  have pos: "0 < x"
    using lo by (rule less_le_trans [rotated]) simp
  have e: "exponentOf x = k"
    using floor_log2 [OF pos lo hi] k by (simp add: exponentOf_def)
  let ?q = "2 powr (of_int k - 52) :: real"
  let ?m = "roundEven (x / ?q)"
  have q: "0 < ?q"
    by simp
  have "2 powr of_int k / ?q = 2 powr 52"
    by (simp add: powr_diff)
  then have s: "2 powr of_int k = 2 powr 52 * ?q"
    using q by (simp add: field_simps)
  have "2 powr (of_int k + 1) = 2 * (2::real) powr of_int k"
    by (simp add: powr_add)
  with s have s': "2 powr (of_int k + 1) = 2 ^ 53 * ?q"
    by simp
  from lo s q have "of_int (2 ^ 52) \<le> x / ?q"
    by (simp add: field_simps)
  then have m_lo: "2 ^ 52 \<le> ?m"
    by (rule roundEven_ge)
  from hi s' q have "x / ?q \<le> of_int (2 ^ 53)"
    by (simp add: field_simps)
  then have m_hi: "?m \<le> 2 ^ 53"
    by (rule roundEven_le)
  have r_pos: "0 < of_int ?m * ?q"
    using m_lo q by simp
  from m_hi have "of_int ?m \<le> (2 ^ 53 :: real)"
    by (metis of_int_le_iff of_int_numeral of_int_power)
  then have "of_int ?m * ?q \<le> 2 ^ 53 * ?q"
    using q by simp
  also have "\<dots> = 2 powr (of_int k + 1)"
    by (simp add: s')
  also have "\<dots> \<le> 2 powr 1023"
    using k by (intro powr_mono) simp_all
  also have "\<dots> < 2 ^ 1024"
    by simp
  finally have r_hi: "of_int ?m * ?q < 2 ^ 1024" .
  show ?thesis
    using pos e r_pos r_hi by (simp add: round64_def Let_def)
qed

text \<open>An integer below \<open>2 ^ 53\<close> is a binary64 value.\<close>

lemma round64_nat:
  assumes "n < 2 ^ 53"
  shows "round64 (real n) = Fin (real n)"
proof (cases "n = 0")
  case True
  then show ?thesis
    by (simp add: round64_def)
next
  case False
  then have "1 \<le> n"
    by simp
  from ex_power_ivl1 [OF _ this, of 2] obtain k where k: "2 ^ k \<le> n" "n < 2 ^ (k + 1)"
    by auto
  from k(1) assms have p: "(2::nat) ^ k < 2 ^ 53"
    by simp
  have k53: "k < 53"
    by (rule power_less_imp_less_exp [of 2]) (simp, fact p)
  let ?j = "52 - k"
  have q: "2 powr (real k - 52) = 1 / (2 ^ ?j :: real)"
  proof -
    have "real k - 52 = - real ?j"
      using k53 by simp
    then have "2 powr (real k - 52) = (2::real) powr (- real ?j)"
      by (simp only:)
    also have "\<dots> = 1 / 2 powr real ?j"
      by (simp add: powr_minus divide_inverse)
    also have "\<dots> = 1 / 2 ^ ?j"
      by (simp add: powr_realpow)
    finally show ?thesis .
  qed
  have lo: "2 powr of_int (int k) \<le> real n"
  proof -
    have "2 powr of_int (int k) = (2::real) ^ k"
      by (simp add: powr_realpow)
    with k(1) show ?thesis
      by (metis of_nat_le_iff of_nat_numeral of_nat_power)
  qed
  have hi: "real n < 2 powr (of_int (int k) + 1)"
  proof -
    have "of_int (int k) + 1 = real (k + 1)"
      by simp
    then have "2 powr (of_int (int k) + 1) = (2::real) ^ (k + 1)"
      by (simp only: powr_realpow zero_less_numeral)
    with k(2) show ?thesis
      by (metis of_nat_less_iff of_nat_numeral of_nat_power)
  qed
  have "real n / (1 / 2 ^ ?j) = of_int (int n * 2 ^ ?j)"
    by simp
  then have m: "roundEven (real n / (1 / 2 ^ ?j)) = int n * 2 ^ ?j"
    by (simp only: roundEven_of_int)
  from round64_normal [OF lo hi] k53
  have "round64 (real n) =
      Fin (of_int (roundEven (real n / 2 powr (real k - 52))) * 2 powr (real k - 52))"
    by simp
  then have "round64 (real n) =
      Fin (of_int (roundEven (real n / (1 / 2 ^ ?j))) * (1 / 2 ^ ?j))"
    by (simp only: q)
  then have "round64 (real n) = Fin (of_int (int n * 2 ^ ?j) * (1 / 2 ^ ?j))"
    by (simp only: m)
  then show ?thesis
    by simp
qed

lemma numOf_exact: "n < 2 ^ 53 \<Longrightarrow> numOf (Some n) = Fin (real n)"
  by (simp add: numOf_def round64_nat)

text \<open>From \<open>2 ^ - 1022\<close> on, the rounded value is above 0 (it may be \<^verbatim>\<open>Infinity\<close>).\<close>

lemma round64_gt0:
  assumes "2 powr (- 1022) \<le> x"
  shows "jsgt0 (round64 x)"
proof -
  have pos: "0 < x"
    using assms by (rule less_le_trans [rotated]) simp
  have "- 1022 \<le> log 2 x"
    using assms pos by (simp add: le_log_iff)
  then have fl: "- 1022 \<le> \<lfloor>log 2 x\<rfloor>"
    by (simp add: le_floor_iff)
  then have e: "exponentOf x = \<lfloor>log 2 x\<rfloor>"
    by (simp add: exponentOf_def)
  let ?q = "2 powr (of_int (exponentOf x) - 52) :: real"
  have q: "0 < ?q"
    by simp
  have "of_int \<lfloor>log 2 x\<rfloor> \<le> log 2 x"
    by simp
  then have "2 powr of_int (exponentOf x) \<le> x"
    using pos by (simp add: e powr_le_iff)
  moreover have "2 powr of_int (exponentOf x) = 2 powr 52 * ?q"
    by (simp add: powr_diff)
  ultimately have "of_int 1 \<le> x / ?q"
    using q by (simp add: field_simps) (smt (verit) mult_le_cancel_right1 powr_gt_zero)
  then have m: "1 \<le> roundEven (x / ?q)"
    by (rule roundEven_ge)
  then have "0 < of_int (roundEven (x / ?q)) * ?q"
    using q by simp
  with pos m show ?thesis
    by (auto simp: round64_def Let_def)
qed

text \<open>The rounded value of a negative real is not above 0.\<close>

lemma round64_neg:
  assumes "x < 0"
  shows "\<not> jsgt0 (round64 x)"
proof -
  let ?q = "2 powr (of_int (exponentOf \<bar>x\<bar>) - 52) :: real"
  have q: "0 < ?q"
    by simp
  have "of_int 0 \<le> \<bar>x\<bar> / ?q"
    by simp
  then have "0 \<le> roundEven (\<bar>x\<bar> / ?q)"
    by (rule roundEven_ge)
  then have "0 \<le> of_int (roundEven (\<bar>x\<bar> / ?q)) * ?q"
    using q by simp
  with assms show ?thesis
    by (simp add: round64_def Let_def)
qed

text \<open>
  The rounding of \<^verbatim>\<open>parseInt\<close> keeps the truthiness of the integer, and the uses of
  \<open>bufferToNumber\<close> as an integer are those of a buffer of at most four bytes, whose
  value is below \<open>2 ^ 32\<close>.
\<close>

lemma numOf_truthy: "jsgt0 (numOf (Some n)) \<longleftrightarrow> n \<noteq> 0"
proof (cases "n = 0")
  case True
  then show ?thesis
    by (simp add: numOf_def round64_def)
next
  case False
  then have "1 \<le> real n"
    by simp
  moreover have "2 powr (- 1022) \<le> (1::real)"
    by (simp add: powr_neg_numeral)
  ultimately have "2 powr (- 1022) \<le> real n"
    by linarith
  then have "jsgt0 (round64 (real n))"
    by (rule round64_gt0)
  with False show ?thesis
    by (simp add: numOf_def)
qed

lemma bufferToNumber_bound:
  "bufferToNumber buffer = Some n \<Longrightarrow> n < 256 ^ length buffer"
proof -
  have "foldl (\<lambda>acc b. acc * 256 + unat b) a p < 256 ^ length p * (a + 1)" for a and p :: "byte list"
  proof (induction p arbitrary: a)
    case Nil
    then show ?case by simp
  next
    case (Cons b p)
    have "unat b < 256"
      using unsigned_less [of b, where 'a = nat] by simp
    then have le: "a * 256 + unat b + 1 \<le> 256 * (a + 1)"
      by simp
    have "foldl (\<lambda>acc b. acc * 256 + unat b) (a * 256 + unat b) p
        < 256 ^ length p * (a * 256 + unat b + 1)"
      by (rule Cons.IH)
    also have "\<dots> \<le> 256 ^ length p * (256 * (a + 1))"
      using le by (rule mult_le_mono2)
    also have "\<dots> = 256 ^ length (b # p) * (a + 1)"
      by (simp add: algebra_simps)
    finally show ?case
      by simp
  qed
  from this [of 0 buffer] show "bufferToNumber buffer = Some n \<Longrightarrow> n < 256 ^ length buffer"
    by (auto simp: bufferToNumber_def split: if_splits)
qed

text \<open>
  The values the statements below compute with: \<^verbatim>\<open>(500000 / 480) / 1000\<close> is
  \<^verbatim>\<open>1.0416666666666667\<close>, and 480 times that is \<^verbatim>\<open>500.00000000000006\<close>;
  \<^verbatim>\<open>(1000000 / 480) / 1000\<close> is \<^verbatim>\<open>2.0833333333333335\<close>, and 480 times that is
  \<^verbatim>\<open>1000.0000000000001\<close>.
\<close>

lemma msPerTick_480:
  "jsdiv (jsdiv (Fin 500000) (Fin 480)) (Fin 1000) =
     Fin (4691249611844267 / 4503599627370496)"
proof -
  have a: "round64 (3125 / 3) = Fin (4581298449066667 / 4398046511104)"
    using round64_normal [of 10 "3125 / 3"]
    by (simp add: roundEven_def Let_def powr_neg_numeral)
  have b: "round64 (4581298449066667 / 4398046511104000) =
      Fin (4691249611844267 / 4503599627370496)"
    using round64_normal [of 0 "4581298449066667 / 4398046511104000"]
    by (simp add: roundEven_def Let_def powr_neg_numeral)
  show ?thesis
    using a b by (simp add: jsdiv_def isZero_def isInf_def)
qed

lemma timeMS_480:
  "jsmul (Fin 480) (Fin (4691249611844267 / 4503599627370496)) =
     Fin (8796093022208001 / 17592186044416)"
proof -
  have "round64 (480 * (4691249611844267 / 4503599627370496)) =
      Fin (8796093022208001 / 17592186044416)"
    using round64_normal [of 8 "480 * (4691249611844267 / 4503599627370496)"]
    by (simp add: roundEven_def Let_def powr_neg_numeral)
  then show ?thesis
    by (simp add: jsmul_def isZero_def isInf_def)
qed

lemma msPerTick_480_slow:
  "jsdiv (jsdiv (Fin 1000000) (Fin 480)) (Fin 1000) =
     Fin (4691249611844267 / 2251799813685248)"
proof -
  have a: "round64 (6250 / 3) = Fin (4581298449066667 / 2199023255552)"
    using round64_normal [of 11 "6250 / 3"]
    by (simp add: roundEven_def Let_def powr_neg_numeral)
  have b: "round64 (4581298449066667 / 2199023255552000) =
      Fin (4691249611844267 / 2251799813685248)"
    using round64_normal [of 1 "4581298449066667 / 2199023255552000"]
    by (simp add: roundEven_def Let_def powr_neg_numeral)
  show ?thesis
    using a b by (simp add: jsdiv_def isZero_def isInf_def)
qed

lemma timeMS_480_slow:
  "jsmul (Fin 480) (Fin (4691249611844267 / 2251799813685248)) =
     Fin (8796093022208001 / 8796093022208)"
proof -
  have "round64 (480 * (4691249611844267 / 2251799813685248)) =
      Fin (8796093022208001 / 8796093022208)"
    using round64_normal [of 9 "480 * (4691249611844267 / 2251799813685248)"]
    by (simp add: roundEven_def Let_def powr_neg_numeral)
  then show ?thesis
    by (simp add: jsmul_def isZero_def isInf_def)
qed

text \<open>An event at tick 0 is at 0 ms under those.\<close>

lemma timeMS_0: "0 < r \<Longrightarrow> jsmul (Fin 0) (Fin r) = Fin 0"
  by (simp add: jsmul_def isZero_def isInf_def)

subsection \<open>Running the script on a file\<close>

lemma readHeaderVals_3:
  "readHeaderVals 3 g =
     ([take 2 (drop (byteIndex g) (bytes g)), take 2 (drop (byteIndex g + 2) (bytes g)),
       take 2 (drop (byteIndex g + 4) (bytes g))],
      g\<lparr>byteIndex := byteIndex g + 6\<rparr>)"
  by (simp add: eval_nat_numeral readBytes_def)

lemma storeTrack_eq:
  "storeTrack iTrack trackData g =
     (if tempTrackName g = ''''
      then g\<lparr>tempTrackName := ''Track '' @ showNat iTrack,
             outputDict := dictSet (''Track '' @ showNat iTrack) trackData (outputDict g)\<rparr>
      else g\<lparr>outputDict := dictSet (tempTrackName g) trackData (outputDict g)\<rparr>)"
  by (simp add: storeTrack_def Let_def)

lemma readTracks_1: "readTracks (Some 1) g = readTrack 0 g"
  by (simp add: readTracks_def)

lemma readTracks_2: "readTracks (Some 2) g = readTrack 1 (readTrack 0 g)"
proof -
  have "[0..<2] = [0, 1]"
    by (simp add: upt_rec)
  then show ?thesis
    by (simp add: readTracks_def)
qed

lemmas step_defs = trackStep_def readEvent_def resolveStatus_def secondByte_def
  readMetaEvent_def readSysex_def readVariableLength_def readBytes_def bufferToNumber_def
  band_def jslt_def truthyNum_def toInt32_def numOf_exact toAscii_def rvlLoop.simps

lemma readHeaderVals_frame:
  "readHeaderVals k g = (vals, g') \<Longrightarrow> g' = g\<lparr>byteIndex := byteIndex g + 2 * k\<rparr>"
proof (induction k arbitrary: g vals g')
  case 0
  then show ?case by simp
next
  case (Suc k)
  obtain rest g2 where r: "readHeaderVals k (g\<lparr>byteIndex := byteIndex g + 2\<rparr>) = (rest, g2)"
    by (cases "readHeaderVals k (g\<lparr>byteIndex := byteIndex g + 2\<rparr>)")
  from Suc.prems r have "g' = g2"
    by (simp add: readBytes_def)
  with Suc.IH [OF r] show ?case
    by (simp add: add.commute add.left_commute)
qed

lemma readHeader_frame:
  assumes "readHeader g = Inr (numTracks, g')"
  shows "\<exists>i d. g' = g\<lparr>byteIndex := i, division := d\<rparr>"
proof -
  let ?g2 = "g\<lparr>byteIndex := byteIndex g + 4 + 4\<rparr>"
  let ?k = "case bufferToNumber (take 4 (drop (byteIndex g + 4) (bytes g))) of
      None \<Rightarrow> 0 | Some n \<Rightarrow> (n + 1) div 2"
  obtain vals g3 where r: "readHeaderVals ?k ?g2 = (vals, g3)"
    by (cases "readHeaderVals ?k ?g2")
  from readHeaderVals_frame [OF r] have g3: "g3 = g\<lparr>byteIndex := byteIndex g + 4 + 4 + 2 * ?k\<rparr>"
    by simp
  from assms r have "g' = g3\<lparr>division := bufferToNumber (vals ! 2)\<rparr>"
    by (auto simp: readHeader_def readBytes_def Let_def split: if_splits)
  with g3 show ?thesis
    by auto
qed


lemma readTrack_valid:
  "take 4 (drop (byteIndex g) (bytes g)) = trackChunk \<Longrightarrow>
     readTrack iTrack g =
       (case trackBody (bufferToNumber (take 4 (drop (byteIndex g + 4) (bytes g))))
               (g\<lparr>byteIndex := byteIndex g + 8, tempTrackName := ''''\<rparr>) of
          (totalDeltaTime, trackData, g') \<Rightarrow> storeTrack iTrack trackData g')"
  by (simp add: readTrack_def readBytes_def add.commute)

subsection \<open>The tempo override\<close>

text \<open>
  The override is used when \<^verbatim>\<open>60000000.0 / overrideTempoBPM\<close> is above 0: never for a
  BPM that is NaN, negative, a negative zero or an infinity, and always for a BPM
  from 0 to the largest binary64 value (the quotient is \<^verbatim>\<open>Infinity\<close> for 0).
\<close>

lemma override_only:
  assumes gt: "jsgt0 (jsdiv (Fin 60000000) bpm)"
  shows "\<exists>r. bpm = Fin r \<and> 0 \<le> r"
proof (cases bpm)
  case (Fin r)
  show ?thesis
  proof (rule ccontr)
    assume "\<not> ?thesis"
    with Fin have neg: "r < 0"
      by simp
    then have "60000000 / r < 0"
      by (simp add: divide_neg_neg divide_pos_neg)
    then have "\<not> jsgt0 (round64 (60000000 / r))"
      by (rule round64_neg)
    with neg Fin have "\<not> jsgt0 (jsdiv (Fin 60000000) bpm)"
      by (simp add: jsdiv_def isZero_def isInf_def)
    with gt show False
      by simp
  qed
qed (use gt in \<open>simp_all add: jsdiv_def isZero_def isInf_def\<close>)

lemma override_used:
  assumes "0 \<le> r" "r \<le> 2 ^ 1024"
  shows "jsgt0 (jsdiv (Fin 60000000) (Fin r))"
proof (cases "r = 0")
  case True
  then show ?thesis
    by (simp add: jsdiv_def isZero_def isInf_def)
next
  case False
  with assms have pos: "0 < r"
    by simp
  have "(2::real) powr (- 1022) = 4 / 2 ^ 1024"
    by (simp add: powr_neg_numeral)
  also have "\<dots> \<le> 60000000 / 2 ^ 1024"
    by (rule divide_right_mono) simp_all
  also have "\<dots> \<le> 60000000 / r"
    using pos assms(2) by (intro divide_left_mono) simp_all
  finally have "jsgt0 (round64 (60000000 / r))"
    by (rule round64_gt0)
  with False show ?thesis
    by (simp add: jsdiv_def isZero_def isInf_def)
qed

subsection \<open>One iteration of the loop of a track\<close>

text \<open>
  The decoders, written out on the bytes at the position: what each returns, and the
  globals it leaves.
\<close>

lemma foldl_bytes_zero:
  "foldl (\<lambda>acc b. acc * 256 + unat b) a p = 0 \<longleftrightarrow> a = 0 \<and> (\<forall>b \<in> set p. b = (0::byte))"
  by (induction p arbitrary: a) (auto simp: unat_eq_0)

lemma truthy_payload: "truthyNum (bufferToNumber p) \<longleftrightarrow> (\<exists>b \<in> set p. b \<noteq> 0)"
  by (auto simp: truthyNum_def bufferToNumber_def foldl_bytes_zero)

lemma readVariableLength_at:
  "readVariableLength g = (vlAt g 0, g\<lparr>byteIndex := byteIndex g + snd (vlAt g 0)\<rparr>)"
  using readVariableLength_vlAt [of g g 0] by simp



lemma vlAt_shift: "vlAt (g\<lparr>byteIndex := byteIndex g + k\<rparr>) j = vlAt g (k + j)"
  unfolding vlAt_def by (rule readVariableLength_cong) (simp_all add: add.assoc)

lemma readMetaEvent_at:
  "readMetaEvent td t g =
     (if 0 < fst (vlAt g 1) then
        (1 + snd (vlAt g 1) + fst (vlAt g 1), td,
         (let payload = take (fst (vlAt g 1)) (drop (byteIndex g + 1 + snd (vlAt g 1)) (bytes g));
              g' = g\<lparr>runningStatus := None,
                     byteIndex := byteIndex g + 1 + snd (vlAt g 1) + fst (vlAt g 1)\<rparr>
          in if byteAt g 0 = Some 0x03 then
               (if list_ex (\<lambda>b. b \<noteq> 0) payload then g'\<lparr>tempTrackName := toAscii payload\<rparr>
                else g')
             else if byteAt g 0 = Some 0x51 then g'\<lparr>tempo := numOf (bufferToNumber payload)\<rparr>
             else g'))
      else
        (1 + snd (vlAt g 1),
         if byteAt g 0 = Some 0x2F then td @ [TrackEnd t] else td,
         g\<lparr>runningStatus := None, byteIndex := byteIndex g + 1 + snd (vlAt g 1)\<rparr>))"
proof -
  let ?g1 = "g\<lparr>runningStatus := None, byteIndex := byteIndex g + 1\<rparr>"
  have rv: "readVariableLength ?g1 = (vlAt g 1, ?g1\<lparr>byteIndex := byteIndex ?g1 + snd (vlAt g 1)\<rparr>)"
    by (rule readVariableLength_vlAt) simp_all
  obtain v k where vk: "vlAt g 1 = (v, k)"
    by (cases "vlAt g 1")
  show ?thesis
    using rv vk
    by (simp add: readMetaEvent_def readBytes_def Let_def byteAt_def truthy_payload
        list_ex_iff add.assoc)
qed

lemma readSysex_at:
  "readSysex td t hb g =
     (fst (vlAt g 0) + snd (vlAt g 0), td,
      g\<lparr>runningStatus := (if jslt hb 0xF8 then None else runningStatus g),
        byteIndex := byteIndex g + snd (vlAt g 0) + fst (vlAt g 0)\<rparr>)"
proof -
  let ?g0 = "if jslt hb 0xF8 then g\<lparr>runningStatus := None\<rparr> else g"
  have rv: "readVariableLength ?g0 = (vlAt g 0, ?g0\<lparr>byteIndex := byteIndex ?g0 + snd (vlAt g 0)\<rparr>)"
    using readVariableLength_vlAt [of ?g0 g 0] by simp
  obtain v k where vk: "vlAt g 0 = (v, k)"
    by (cases "vlAt g 0")
  show ?thesis
    using rv vk by (simp add: readSysex_def readBytes_def Let_def add.assoc)
qed

lemma trackStep_at:
  "trackStep t td g =
     (case (if byteAt g (snd (vlAt g 0)) = Some 0xFF then
              readMetaEvent td (t + fst (vlAt g 0))
                (g\<lparr>byteIndex := byteIndex g + snd (vlAt g 0) + 1\<rparr>)
            else if band (byteAt g (snd (vlAt g 0))) 0xF0 = 0xF0 then
              readSysex td (t + fst (vlAt g 0)) (byteAt g (snd (vlAt g 0)))
                (g\<lparr>byteIndex := byteIndex g + snd (vlAt g 0) + 1\<rparr>)
            else
              readEvent td (t + fst (vlAt g 0)) (byteAt g (snd (vlAt g 0)))
                (g\<lparr>byteIndex := byteIndex g + snd (vlAt g 0) + 1\<rparr>)) of
        (m, td', g') \<Rightarrow> (snd (vlAt g 0) + 1 + m, t + fst (vlAt g 0), td', g'))"
proof -
  obtain dt n where vl: "vlAt g 0 = (dt, n)"
    by (cases "vlAt g 0")
  show ?thesis
    by (simp add: trackStep_def readVariableLength_at vl readBytes_def byteAt_def Let_def
        split: prod.splits)
qed

text \<open>
  What a channel event leaves alone, and that no decoder looks at \<open>outputDict\<close>.
\<close>

lemma readEvent_kept:
  "tempo (snd (snd (readEvent td t hb g))) = tempo g \<and>
   tempTrackName (snd (snd (readEvent td t hb g))) = tempTrackName g \<and>
   bytes (snd (snd (readEvent td t hb g))) = bytes g \<and>
   outputDict (snd (snd (readEvent td t hb g))) = outputDict g \<and>
   overrideTempoBPM (snd (snd (readEvent td t hb g))) = overrideTempoBPM g \<and>
   overrideTempo (snd (snd (readEvent td t hb g))) = overrideTempo g \<and>
   division (snd (snd (readEvent td t hb g))) = division g"
  by (auto simp: readEvent_def secondByte_def readBytes_def Let_def split: option.splits)





text \<open>
  What an iteration does to the tempo and to the track name: the value of the tempo
  event, the string of the name event, when the bytes at its position are one; and
  what it never changes.
\<close>

lemma trackStep_tempo:
  "tempo (snd (snd (snd (trackStep t td g)))) =
     (case tempoEventAt g of Some v \<Rightarrow> v | None \<Rightarrow> tempo g)"
proof -
  let ?n = "snd (vlAt g 0)"
  let ?t = "t + fst (vlAt g 0)"
  let ?g2 = "g\<lparr>byteIndex := byteIndex g + ?n + 1\<rparr>"
  have vl: "vlAt ?g2 1 = vlAt g (?n + 2)"
    using vlAt_shift [of g "?n + 1" 1] by (simp add: add.assoc)
  have ty: "byteAt ?g2 0 = byteAt g (?n + 1)"
    using byteAt_shift [of g "?n + 1" 0] by (simp add: add.assoc)
  show ?thesis
    unfolding trackStep_at [of t td g] readMetaEvent_at [of td ?t ?g2]
      readSysex_at [of td ?t "byteAt g ?n" ?g2] vl ty
    using readEvent_kept [of td ?t "byteAt g ?n" ?g2]
    by (simp add: tempoEventAt_def metaEventAt_def Let_def case_prod_beta add.assoc)
qed


lemma trackStep_kept:
  "bytes (snd (snd (snd (trackStep t td g)))) = bytes g \<and>
   outputDict (snd (snd (snd (trackStep t td g)))) = outputDict g \<and>
   overrideTempoBPM (snd (snd (snd (trackStep t td g)))) = overrideTempoBPM g \<and>
   overrideTempo (snd (snd (snd (trackStep t td g)))) = overrideTempo g \<and>
   division (snd (snd (snd (trackStep t td g)))) = division g"
proof -
  let ?n = "snd (vlAt g 0)"
  let ?t = "t + fst (vlAt g 0)"
  let ?g2 = "g\<lparr>byteIndex := byteIndex g + ?n + 1\<rparr>"
  show ?thesis
    unfolding trackStep_at [of t td g] readMetaEvent_at [of td ?t ?g2]
      readSysex_at [of td ?t "byteAt g ?n" ?g2]
    using readEvent_kept [of td ?t "byteAt g ?n" ?g2]
    by (simp add: Let_def case_prod_beta)
qed

subsection \<open>The loop of a track, iteration by iteration\<close>

lemma lastOr_Nil: "lastOr d [] = d"
  by (simp add: lastOr_def)

lemma lastOr_Cons: "lastOr d (x # xs) = lastOr x xs"
  by (simp add: lastOr_def)

lemma lastOr_append: "lastOr d (xs @ ys) = lastOr (lastOr d xs) ys"
  by (simp add: lastOr_def)

lemma map_filter_app: "List.map_filter f (xs @ ys) = List.map_filter f xs @ List.map_filter f ys"
  by (simp add: List.map_filter_def)

lemma trackLoop_step:
  "0 < len \<Longrightarrow>
     trackLoop len t td g =
       (case trackStep t td g of (bytesRead, t', td', g') \<Rightarrow>
          trackLoop (len - int bytesRead) t' td' g')"
  by (simp add: trackLoop.simps [of len t td g])

lemma trackLoop_done: "len \<le> 0 \<Longrightarrow> trackLoop len t td g = (t, td, g)"
  by (simp add: trackLoop.simps [of len t td g])

lemma trackPositions_step:
  "0 < len \<Longrightarrow>
     trackPositions len t td g =
       (case trackStep t td g of (bytesRead, t', td', g') \<Rightarrow>
          g # trackPositions (len - int bytesRead) t' td' g')"
  by (simp add: trackPositions.simps [of len t td g])

lemma trackPositions_done: "len \<le> 0 \<Longrightarrow> trackPositions len t td g = []"
  by (simp add: trackPositions.simps [of len t td g])

text \<open>
  A variable that an iteration sets to the value of the event at its position, when
  that event is of some kind, and leaves alone otherwise, holds after the loop the
  value of the last event of that kind, or what it held before the loop.
\<close>

lemma trackLoop_lastOr:
  assumes step: "\<And>t td g. sel (snd (snd (snd (trackStep t td g)))) =
      (case ev g of Some v \<Rightarrow> v | None \<Rightarrow> sel g)"
  shows "sel (snd (snd (trackLoop len t td g))) =
    lastOr (sel g) (List.map_filter ev (trackPositions len t td g))"
proof (induction len t td g rule: trackLoop.induct)
  case (1 len t td g)
  show ?case
  proof (cases "0 < len")
    case True
    obtain bytesRead t1 td1 g1 where s: "trackStep t td g = (bytesRead, t1, td1, g1)"
      by (metis prod_cases4)
    from "1.IH" [OF True s [symmetric] refl refl refl]
    have IH: "sel (snd (snd (trackLoop (len - int bytesRead) t1 td1 g1))) =
        lastOr (sel g1) (List.map_filter ev (trackPositions (len - int bytesRead) t1 td1 g1))" .
    from step [of t td g] s have g1: "sel g1 = (case ev g of Some v \<Rightarrow> v | None \<Rightarrow> sel g)"
      by simp
    show ?thesis
      using True s IH g1
      by (simp add: trackLoop_step trackPositions_step lastOr_Cons
          split: option.splits)
  next
    case False
    then show ?thesis
      by (simp add: trackLoop_done trackPositions_done lastOr_Nil)
  qed
qed



lemma trackLoop_tempo:
  "tempo (snd (snd (trackLoop len t td g))) =
     lastOr (tempo g) (List.map_filter tempoEventAt (trackPositions len t td g))"
  by (rule trackLoop_lastOr) (rule trackStep_tempo)



subsection \<open>A track, and the tracks of a file\<close>

lemma readTrack_invalid:
  "take 4 (drop (byteIndex g) (bytes g)) \<noteq> trackChunk \<Longrightarrow>
     readTrack iTrack g = g\<lparr>byteIndex := byteIndex g + 4\<rparr>"
  by (simp add: readTrack_def readBytes_def)

text \<open>
  The loop of a track starts from the globals of the call, with the position after
  the eight bytes of the chunk header and the name cleared; nothing else is reset.
\<close>

lemma readTrack_loop:
  "take 4 (drop (byteIndex g) (bytes g)) = trackChunk \<Longrightarrow>
     readTrack iTrack g =
       (case bufferToNumber (take 4 (drop (byteIndex g + 4) (bytes g))) of
          None \<Rightarrow> storeTrack iTrack [] (g\<lparr>byteIndex := byteIndex g + 8, tempTrackName := ''''\<rparr>)
        | Some len \<Rightarrow>
            (case trackLoop (int len) 0 []
                    (g\<lparr>byteIndex := byteIndex g + 8, tempTrackName := ''''\<rparr>) of
               (totalDeltaTime, trackData, g') \<Rightarrow> storeTrack iTrack trackData g'))"
  by (simp add: readTrack_valid trackBody_def split: option.splits)

lemma readTrack_lastOr:
  assumes step: "\<And>t td g. sel (snd (snd (snd (trackStep t td g)))) =
      (case ev g of Some v \<Rightarrow> v | None \<Rightarrow> sel g)"
    and pos: "\<And>g i. sel (g\<lparr>byteIndex := i\<rparr>) = sel g"
    and name: "\<And>g n. sel (g\<lparr>tempTrackName := n\<rparr>) = sel g"
    and dict: "\<And>g d. sel (g\<lparr>outputDict := d\<rparr>) = sel g"
  shows "sel (readTrack iTrack g) = lastOr (sel g) (List.map_filter ev (trackIterations g))"
proof (cases "take 4 (drop (byteIndex g) (bytes g)) = trackChunk")
  case True
  let ?h = "g\<lparr>byteIndex := byteIndex g + 8, tempTrackName := ''''\<rparr>"
  have h: "sel ?h = sel g"
    by (simp add: pos name)
  have store: "sel (storeTrack iTrack td g') = sel g'" for td g'
    by (simp add: storeTrack_eq pos name dict)
  show ?thesis
  proof (cases "bufferToNumber (take 4 (drop (byteIndex g + 4) (bytes g)))")
    case None
    with True show ?thesis
      by (simp add: readTrack_loop trackIterations_def store h lastOr_Nil)
  next
    case (Some len)
    from trackLoop_lastOr [of sel ev "int len" 0 "[]" ?h, OF step] h
    have "sel (snd (snd (trackLoop (int len) 0 [] ?h))) =
        lastOr (sel g) (List.map_filter ev (trackPositions (int len) 0 [] ?h))"
      by simp
    with True Some show ?thesis
      by (simp add: readTrack_loop trackIterations_def store case_prod_beta)
  qed
next
  case False
  then show ?thesis
    by (simp add: readTrack_invalid trackIterations_def pos lastOr_Nil)
qed

lemma fold_readTrack_lastOr:
  assumes step: "\<And>t td g. sel (snd (snd (snd (trackStep t td g)))) =
      (case ev g of Some v \<Rightarrow> v | None \<Rightarrow> sel g)"
    and pos: "\<And>g i. sel (g\<lparr>byteIndex := i\<rparr>) = sel g"
    and name: "\<And>g n. sel (g\<lparr>tempTrackName := n\<rparr>) = sel g"
    and dict: "\<And>g d. sel (g\<lparr>outputDict := d\<rparr>) = sel g"
  shows "sel (fold readTrack tracks g) =
    lastOr (sel g) (List.map_filter ev (fileIterations tracks g))"
proof (induction tracks arbitrary: g)
  case Nil
  show ?case
    by (simp add: lastOr_Nil)
next
  case (Cons iTrack rest)
  have "sel (readTrack iTrack g) = lastOr (sel g) (List.map_filter ev (trackIterations g))"
    using step pos name dict by (rule readTrack_lastOr)
  with Cons.IH [of "readTrack iTrack g"] show ?case
    by (simp add: map_filter_app lastOr_append)
qed

lemma fold_readTrack_keeps:
  assumes step: "\<And>t td g. sel (snd (snd (snd (trackStep t td g)))) = sel g"
    and pos: "\<And>g i. sel (g\<lparr>byteIndex := i\<rparr>) = sel g"
    and name: "\<And>g n. sel (g\<lparr>tempTrackName := n\<rparr>) = sel g"
    and dict: "\<And>g d. sel (g\<lparr>outputDict := d\<rparr>) = sel g"
  shows "sel (fold readTrack tracks g) = sel g"
proof -
  have "sel (fold readTrack tracks g) =
      lastOr (sel g) (List.map_filter (\<lambda>g. None) (fileIterations tracks g))"
    using _ pos name dict by (rule fold_readTrack_lastOr) (simp add: step)
  moreover have "List.map_filter (\<lambda>g. None) xs = ([] :: 'a list)" for xs :: "globals list"
    by (induction xs) simp_all
  ultimately show ?thesis
    by (simp add: lastOr_Nil)
qed

text \<open>
  After the tracks, the tempo is the value of the last tempo event of the file (or
  what it was before the first track), and the settings of the run are unchanged.
\<close>

lemma readTracks_tempo:
  "tempo (readTracks numTracks g) =
     lastOr (tempo g)
       (List.map_filter tempoEventAt
          (fileIterations [0..<(case numTracks of None \<Rightarrow> 0 | Some n \<Rightarrow> n)] g))"
  unfolding readTracks_def by (rule fold_readTrack_lastOr) (simp_all add: trackStep_tempo)

lemma readTracks_kept:
  "bytes (readTracks numTracks g) = bytes g \<and>
   overrideTempoBPM (readTracks numTracks g) = overrideTempoBPM g \<and>
   overrideTempo (readTracks numTracks g) = overrideTempo g \<and>
   division (readTracks numTracks g) = division g"
  unfolding readTracks_def
  using fold_readTrack_keeps [of bytes] fold_readTrack_keeps [of overrideTempoBPM]
    fold_readTrack_keeps [of overrideTempo] fold_readTrack_keeps [of division]
  by (simp add: trackStep_kept)

subsection \<open>Running status across tracks\<close>











subsection \<open>Track names\<close>







subsection \<open>Tracks of the same name\<close>

text \<open>
  Under any other name, storing a track replaces what the name held: of two tracks
  of the same name, the output has the events of the later one.
\<close>

lemma storeTrack_overwrites:
  "name = (if tempTrackName g = '''' then ''Track '' @ showNat iTrack else tempTrackName g) \<Longrightarrow>
   name \<noteq> ''__proto__'' \<Longrightarrow>
     outputDict (storeTrack iTrack trackData g) = (outputDict g)(name \<mapsto> trackData)"
  by (auto simp: storeTrack_eq dictSet_def split: if_splits)

text \<open>
  Claim C10 at the name \<^verbatim>\<open>__proto__\<close>. Two tracks, each the name event
  \<^verbatim>\<open>00 FF 03 09 "__proto__"\<close> and one \<^verbatim>\<open>noteOn\<close> (note 60 in the first track, 62 in the
  second): the output has no property of that name, neither track's events are in
  it, and it has no property at all.
\<close>

theorem proto_tracks_lost:
  "(case main [0x4D, 0x54, 0x68, 0x64, 0, 0, 0, 6, 0, 1, 0, 2, 0x01, 0xE0,
        0x4D, 0x54, 0x72, 0x6B, 0, 0, 0, 17,
        0x00, 0xFF, 0x03, 0x09, 0x5F, 0x5F, 0x70, 0x72, 0x6F, 0x74, 0x6F, 0x5F, 0x5F,
        0x00, 0x90, 0x3C, 0x40,
        0x4D, 0x54, 0x72, 0x6B, 0, 0, 0, 17,
        0x00, 0xFF, 0x03, 0x09, 0x5F, 0x5F, 0x70, 0x72, 0x6F, 0x74, 0x6F, 0x5F, 0x5F,
        0x00, 0x90, 0x3E, 0x40] None of
      Done out \<Rightarrow> out ''__proto__'' = None \<and> dom out = {}
    | _ \<Rightarrow> False)"
proof -
  let ?file = "[0x4D, 0x54, 0x68, 0x64, 0, 0, 0, 6, 0, 1, 0, 2, 0x01, 0xE0,
        0x4D, 0x54, 0x72, 0x6B, 0, 0, 0, 17,
        0x00, 0xFF, 0x03, 0x09, 0x5F, 0x5F, 0x70, 0x72, 0x6F, 0x74, 0x6F, 0x5F, 0x5F,
        0x00, 0x90, 0x3C, 0x40,
        0x4D, 0x54, 0x72, 0x6B, 0, 0, 0, 17,
        0x00, 0xFF, 0x03, 0x09, 0x5F, 0x5F, 0x70, 0x72, 0x6F, 0x74, 0x6F, 0x5F, 0x5F,
        0x00, 0x90, 0x3E, 0x40] :: byte list"
  let ?i = "initialGlobals\<lparr>bytes := ?file, division := Some 480\<rparr>"
  let ?g0 = "?i\<lparr>byteIndex := 14\<rparr>"
  let ?a0 = "?i\<lparr>byteIndex := 22\<rparr>"
  let ?a1 = "?i\<lparr>byteIndex := 35, tempTrackName := ''__proto__''\<rparr>"
  let ?a2 = "?i\<lparr>byteIndex := 39, tempTrackName := ''__proto__'',
      runningStatus := Some (Some 0x90)\<rparr>"
  let ?b0 = "?i\<lparr>byteIndex := 47, tempTrackName := '''', runningStatus := Some (Some 0x90)\<rparr>"
  let ?b1 = "?i\<lparr>byteIndex := 60, tempTrackName := ''__proto__''\<rparr>"
  let ?b2 = "?i\<lparr>byteIndex := 64, tempTrackName := ''__proto__'',
      runningStatus := Some (Some 0x90)\<rparr>"
  have name: "toAscii [0x5F, 0x5F, 0x70, 0x72, 0x6F, 0x74, 0x6F, 0x5F, 0x5F] = ''__proto__''"
    by (simp add: toAscii_def char_of_def bit_0)
  have h: "readHeader (applyArguments ?file None initialGlobals) = Inr (Some 2, ?g0)"
    by (simp add: readHeader_def applyArguments_def readBytes_def readHeaderVals_3
        bufferToNumber_def band_def headerChunk_def initialGlobals_def)
  have s0: "trackStep 0 [] ?a0 = (13, 0, [], ?a1)"
    using name by (simp add: step_defs initialGlobals_def)
  have s1: "trackStep 0 [] ?a1 = (4, 0, [NoteOn 0 (Some 60) (Some 64)], ?a2)"
    by (simp add: step_defs initialGlobals_def)
  have l0: "trackLoop 17 0 [] ?a0 = (0, [NoteOn 0 (Some 60) (Some 64)], ?a2)"
    using s0 s1
    by (subst trackLoop.simps, simp, subst trackLoop.simps, simp add: trackLoop.simps [of 0])
  have t0: "readTrack 0 ?g0 = ?a2"
    using l0
    by (simp add: readTrack_def readBytes_def bufferToNumber_def trackChunk_def trackBody_def
        storeTrack_eq dictSet_def initialGlobals_def)
  have s2: "trackStep 0 [] ?b0 = (13, 0, [], ?b1)"
    using name by (simp add: step_defs initialGlobals_def)
  have s3: "trackStep 0 [] ?b1 = (4, 0, [NoteOn 0 (Some 62) (Some 64)], ?b2)"
    by (simp add: step_defs initialGlobals_def)
  have l1: "trackLoop 17 0 [] ?b0 = (0, [NoteOn 0 (Some 62) (Some 64)], ?b2)"
    using s2 s3
    by (subst trackLoop.simps, simp, subst trackLoop.simps, simp add: trackLoop.simps [of 0])
  have t1: "readTrack 1 ?a2 = ?b2"
    using l1
    by (simp add: readTrack_def readBytes_def bufferToNumber_def trackChunk_def trackBody_def
        storeTrack_eq dictSet_def initialGlobals_def)
  have tracks: "readTracks (Some 2) ?g0 = ?b2"
    by (simp only: readTracks_2 t0 t1)
  have "annotateTimes ?b2 = Map.empty"
    by (simp add: annotateTimes_def annotate_def Let_def initialGlobals_def)
  with h tracks show ?thesis
    by (simp add: main_def script_def)
qed

subsection \<open>Tempo and timestamps\<close>

lemma applyArguments_override:
  "overrideTempo (applyArguments file bpmArg initialGlobals) =
     (case bpmArg of None \<Rightarrow> Fin 0 | Some bpm \<Rightarrow> jsdiv (Fin 60000000) bpm) \<and>
   tempo (applyArguments file bpmArg initialGlobals) = Fin 500000"
  by (simp add: applyArguments_def initialGlobals_def split: option.splits)

lemma annotateTimes_eq:
  "annotateTimes g =
     annotate (jsdiv (jsdiv (if jsgt0 (overrideTempo g) then overrideTempo g else tempo g)
        (numOf (division g))) (Fin 1000)) (outputDict g)"
  by (simp add: annotateTimes_def Let_def)

text \<open>
  Claim C5 as stated (the override applies for a positive BPM, the embedded tempo
  otherwise) does not hold for the argument \<^verbatim>\<open>0\<close>: \<^verbatim>\<open>60000000.0 / 0\<close> is \<^verbatim>\<open>Infinity\<close>,
  which passes \<^verbatim>\<open>overrideTempo > 0.0\<close>, so the tempo is infinite. The file has no tempo
  event, division 480 and a \<^verbatim>\<open>noteOn\<close> at tick 480: its timestamp is \<^verbatim>\<open>Infinity\<close> with
  the argument 0, and the \<^verbatim>\<open>500.00000000000006\<close> ms of the default tempo without a
  fifth argument.
\<close>

theorem override_zero_bpm_counterexample:
  "(case main [0x4D, 0x54, 0x68, 0x64, 0, 0, 0, 6, 0, 1, 0, 1, 0x01, 0xE0,
        0x4D, 0x54, 0x72, 0x6B, 0, 0, 0, 5, 0x83, 0x60, 0x90, 0x3C, 0x40] (Some (Fin 0)) of
      Done out \<Rightarrow> out ''Track 0'' = Some [(NoteOn 480 (Some 60) (Some 64), PInf)]
    | _ \<Rightarrow> False) \<and>
   (case main [0x4D, 0x54, 0x68, 0x64, 0, 0, 0, 6, 0, 1, 0, 1, 0x01, 0xE0,
        0x4D, 0x54, 0x72, 0x6B, 0, 0, 0, 5, 0x83, 0x60, 0x90, 0x3C, 0x40] None of
      Done out \<Rightarrow>
        out ''Track 0'' =
          Some [(NoteOn 480 (Some 60) (Some 64), Fin (8796093022208001 / 17592186044416))]
    | _ \<Rightarrow> False)"
proof -
  let ?file = "[0x4D, 0x54, 0x68, 0x64, 0, 0, 0, 6, 0, 1, 0, 1, 0x01, 0xE0,
        0x4D, 0x54, 0x72, 0x6B, 0, 0, 0, 5, 0x83, 0x60, 0x90, 0x3C, 0x40] :: byte list"
  have run: "(case script initialGlobals ?file bpmArg of
        Done out \<Rightarrow> out ''Track 0'' = Some [(NoteOn 480 (Some 60) (Some 64), ms)]
      | _ \<Rightarrow> False)"
    if g: "g = initialGlobals\<lparr>overrideTempoBPM := b, overrideTempo := ov\<rparr>"
      and a: "applyArguments ?file bpmArg initialGlobals = g\<lparr>bytes := ?file\<rparr>"
      and ms: "jsmul (Fin 480) (jsdiv (jsdiv (if jsgt0 ov then ov else Fin 500000) (Fin 480))
          (Fin 1000)) = ms"
    for g b ov bpmArg ms
  proof -
    let ?i = "g\<lparr>bytes := ?file, division := Some 480\<rparr>"
    let ?g0 = "?i\<lparr>byteIndex := 14\<rparr>"
    let ?a0 = "?i\<lparr>byteIndex := 22\<rparr>"
    let ?a1 = "?i\<lparr>byteIndex := 27, runningStatus := Some (Some 0x90)\<rparr>"
    let ?g1 = "?a1\<lparr>tempTrackName := ''Track 0'',
        outputDict := [''Track 0'' \<mapsto> [NoteOn 480 (Some 60) (Some 64)]]\<rparr>"
    have h: "readHeader (g\<lparr>bytes := ?file\<rparr>) = Inr (Some 1, ?g0)"
      by (simp add: g readHeader_def readBytes_def readHeaderVals_3
          bufferToNumber_def band_def headerChunk_def initialGlobals_def)
    have vl: "readVariableLength ?a0 = ((480, 2), ?a0\<lparr>byteIndex := byteIndex ?a0 + 2\<rparr>)"
      using readVariableLength_2 [of ?a0 3 96]
      by (simp add: g byteAt_def bufferToNumber_def initialGlobals_def)
    have s0: "trackStep 0 [] ?a0 = (5, 480, [NoteOn 480 (Some 60) (Some 64)], ?a1)"
      using vl
      by (simp add: g trackStep_def readEvent_def resolveStatus_def secondByte_def readBytes_def
          bufferToNumber_def band_def jslt_def initialGlobals_def)
    have l0: "trackLoop 5 0 [] ?a0 = (480, [NoteOn 480 (Some 60) (Some 64)], ?a1)"
      using s0 by (subst trackLoop.simps) (simp add: trackLoop.simps [of 0])
    have t0: "readTrack 0 ?g0 = ?g1"
      using l0
      by (simp add: g readTrack_def readBytes_def bufferToNumber_def trackChunk_def
          trackBody_def storeTrack_eq dictSet_def initialGlobals_def showNat.simps char_of_def
          bit_0)
    have tracks: "readTracks (Some 1) ?g0 = ?g1"
      by (simp only: readTracks_1 t0)
    have "annotateTimes ?g1 ''Track 0'' = Some [(NoteOn 480 (Some 60) (Some 64), ms)]"
      using ms
      by (auto simp: g annotateTimes_eq annotate_def initialGlobals_def numOf_exact
          split: if_splits)
    with h tracks a show ?thesis
      by (simp add: script_def)
  qed
  have inf: "jsmul (Fin 480) (jsdiv (jsdiv (if jsgt0 PInf then PInf else Fin 500000) (Fin 480))
      (Fin 1000)) = PInf"
    by (simp add: jsdiv_def jsmul_def isZero_def isInf_def)
  have dflt: "jsmul (Fin 480) (jsdiv (jsdiv (if jsgt0 (Fin 0) then Fin 0 else Fin 500000)
      (Fin 480)) (Fin 1000)) = Fin (8796093022208001 / 17592186044416)"
    using msPerTick_480 timeMS_480 by simp
  have zero: "jsdiv (Fin 60000000) (Fin 0) = PInf"
    by (simp add: jsdiv_def isZero_def isInf_def)
  have first: "(case script initialGlobals ?file (Some (Fin 0)) of
        Done out \<Rightarrow> out ''Track 0'' = Some [(NoteOn 480 (Some 60) (Some 64), PInf)]
      | _ \<Rightarrow> False)"
    by (rule run [where b = "Fin 0", OF refl _ inf]) (simp add: applyArguments_def zero)
  have second: "(case script initialGlobals ?file None of
        Done out \<Rightarrow>
          out ''Track 0'' =
            Some [(NoteOn 480 (Some 60) (Some 64), Fin (8796093022208001 / 17592186044416))]
      | _ \<Rightarrow> False)"
    by (rule run [where b = "Fin 0", OF refl _ dflt])
      (simp add: applyArguments_def initialGlobals_def)
  from first second show ?thesis
    by (simp add: main_def)
qed

text \<open>
  Claim C5, as the code has it. A run that gets past the header ends with the output
  below: every event of every stored track with \<^verbatim>\<open>timeMS = time * msPerTick\<close>, where
  \<^verbatim>\<open>msPerTick = (tempo / division) / 1000\<close>. The tempo is the override
  \<^verbatim>\<open>60000000 / BPM\<close> when a BPM was given and that quotient is greater than 0, whatever
  the tempo events of the file; otherwise it is the value of the last tempo event the
  tracks hold, in the order the loop of each track and the loop over the tracks meet
  them, and 500000 when there is none. A tempo event is a meta event of type \<open>0x51\<close>
  with a length above 0, and its value the number its payload denotes, as binary64.
  The quotient is greater than 0 only for a BPM that is a number with \<open>0 \<le> BPM\<close>,
  and it is so for every such BPM up to the largest binary64 value, 0 included. An
  iteration of the loop of a track sets the tempo exactly when the event at its
  position is a tempo event.
\<close>

theorem tempo_and_timestamps:
  "(readHeader (applyArguments file bpmArg initialGlobals) = Inr (numTracks, g0) \<longrightarrow>
      main file bpmArg =
        Done (let tempoEvents =
                    List.map_filter tempoEventAt
                      (fileIterations [0..<(case numTracks of None \<Rightarrow> 0 | Some n \<Rightarrow> n)] g0);
                  parsedTempo = lastOr (Fin 500000) tempoEvents;
                  effectiveTempo =
                    (case bpmArg of
                       None \<Rightarrow> parsedTempo
                     | Some bpm \<Rightarrow>
                         if jsgt0 (jsdiv (Fin 60000000) bpm) then jsdiv (Fin 60000000) bpm
                         else parsedTempo);
                  msPerTick = jsdiv (jsdiv effectiveTempo (numOf (division g0))) (Fin 1000)
              in (\<lambda>name. map_option (map (\<lambda>e. (e, jsmul (Fin (real (evTime e))) msPerTick)))
                           (outputDict (readTracks numTracks g0) name)))) \<and>
   (jsgt0 (jsdiv (Fin 60000000) bpm) \<longrightarrow> (\<exists>r. bpm = Fin r \<and> 0 \<le> r)) \<and>
   (0 \<le> r \<and> r \<le> 2 ^ 1024 \<longrightarrow> jsgt0 (jsdiv (Fin 60000000) (Fin r))) \<and>
   tempo (snd (snd (snd (trackStep t td g)))) =
     (case tempoEventAt g of Some v \<Rightarrow> v | None \<Rightarrow> tempo g)"
proof -
  have run: "main file bpmArg =
        Done (let tempoEvents =
                    List.map_filter tempoEventAt
                      (fileIterations [0..<(case numTracks of None \<Rightarrow> 0 | Some n \<Rightarrow> n)] g0);
                  parsedTempo = lastOr (Fin 500000) tempoEvents;
                  effectiveTempo =
                    (case bpmArg of
                       None \<Rightarrow> parsedTempo
                     | Some bpm \<Rightarrow>
                         if jsgt0 (jsdiv (Fin 60000000) bpm) then jsdiv (Fin 60000000) bpm
                         else parsedTempo);
                  msPerTick = jsdiv (jsdiv effectiveTempo (numOf (division g0))) (Fin 1000)
              in (\<lambda>name. map_option (map (\<lambda>e. (e, jsmul (Fin (real (evTime e))) msPerTick)))
                           (outputDict (readTracks numTracks g0) name)))"
    if h: "readHeader (applyArguments file bpmArg initialGlobals) = Inr (numTracks, g0)"
  proof -
    from readHeader_frame [OF h] obtain i d where
      g0: "g0 = (applyArguments file bpmArg initialGlobals)\<lparr>byteIndex := i, division := d\<rparr>"
      by blast
    from g0 applyArguments_override [of "file" bpmArg]
    have ov: "overrideTempo g0 =
        (case bpmArg of None \<Rightarrow> Fin 0 | Some bpm \<Rightarrow> jsdiv (Fin 60000000) bpm)"
      and tp: "tempo g0 = Fin 500000"
      by simp_all
    let ?g = "readTracks numTracks g0"
    from readTracks_kept [of numTracks g0] ov
    have ov': "overrideTempo ?g =
        (case bpmArg of None \<Rightarrow> Fin 0 | Some bpm \<Rightarrow> jsdiv (Fin 60000000) bpm)"
      and dv: "division ?g = division g0"
      by simp_all
    from readTracks_tempo [of numTracks g0] tp
    have tempo: "tempo ?g =
        lastOr (Fin 500000)
          (List.map_filter tempoEventAt
             (fileIterations [0..<(case numTracks of None \<Rightarrow> 0 | Some n \<Rightarrow> n)] g0))"
      by simp
    have "main file bpmArg = Done (annotateTimes ?g)"
      using h by (simp add: main_def script_def)
    with ov' dv tempo show ?thesis
      by (cases bpmArg) (simp_all add: annotateTimes_eq annotate_def Let_def)
  qed
  show ?thesis
    using run override_only [of bpm] override_used [of r] trackStep_tempo [of t td g]
    by blast
qed

theorem tempo_and_timestamps_witness:
  "(case main [0x4D, 0x54, 0x68, 0x64, 0, 0, 0, 6, 0, 1, 0, 1, 0x01, 0xE0,
        0x4D, 0x54, 0x72, 0x6B, 0, 0, 0, 12,
        0x00, 0xFF, 0x51, 0x03, 0x0F, 0x42, 0x40, 0x83, 0x60, 0x90, 0x3C, 0x40]
      (Some (Fin 120)) of
      Done out \<Rightarrow>
        out ''Track 0'' =
          Some [(NoteOn 480 (Some 60) (Some 64), Fin (8796093022208001 / 17592186044416))]
    | _ \<Rightarrow> False) \<and>
   (case main [0x4D, 0x54, 0x68, 0x64, 0, 0, 0, 6, 0, 1, 0, 1, 0x01, 0xE0,
        0x4D, 0x54, 0x72, 0x6B, 0, 0, 0, 12,
        0x00, 0xFF, 0x51, 0x03, 0x0F, 0x42, 0x40, 0x83, 0x60, 0x90, 0x3C, 0x40]
      None of
      Done out \<Rightarrow>
        out ''Track 0'' =
          Some [(NoteOn 480 (Some 60) (Some 64), Fin (8796093022208001 / 8796093022208))]
    | _ \<Rightarrow> False) \<and>
   jsgt0 (jsdiv (Fin 60000000) (Fin 120))"
proof -
  let ?file = "[0x4D, 0x54, 0x68, 0x64, 0, 0, 0, 6, 0, 1, 0, 1, 0x01, 0xE0,
        0x4D, 0x54, 0x72, 0x6B, 0, 0, 0, 12,
        0x00, 0xFF, 0x51, 0x03, 0x0F, 0x42, 0x40, 0x83, 0x60, 0x90, 0x3C, 0x40] :: byte list"
  have ov: "jsdiv (Fin 60000000) (Fin 120) = Fin 500000"
    using round64_nat [of 500000] by (simp add: jsdiv_def isZero_def isInf_def)
  have pos: "jsgt0 (jsdiv (Fin 60000000) (Fin 120))"
    using tempo_and_timestamps [where r = 120] by simp
  have run: "readHeader (applyArguments ?file bpmArg initialGlobals) =
        Inr (Some 1, g\<lparr>bytes := ?file, division := Some 480, byteIndex := 14\<rparr>) \<and>
      List.map_filter tempoEventAt
        (fileIterations [0..<1] (g\<lparr>bytes := ?file, division := Some 480, byteIndex := 14\<rparr>)) =
        [Fin 1000000] \<and>
      outputDict (readTracks (Some 1)
        (g\<lparr>bytes := ?file, division := Some 480, byteIndex := 14\<rparr>)) =
        [''Track 0'' \<mapsto> [NoteOn 480 (Some 60) (Some 64)]]"
    if g: "g = initialGlobals\<lparr>overrideTempoBPM := b, overrideTempo := v\<rparr>"
      and a: "applyArguments ?file bpmArg initialGlobals = g\<lparr>bytes := ?file\<rparr>"
    for g b v bpmArg
  proof -
    let ?i = "g\<lparr>bytes := ?file, division := Some 480\<rparr>"
    let ?g0 = "?i\<lparr>byteIndex := 14\<rparr>"
    let ?a0 = "?i\<lparr>byteIndex := 22\<rparr>"
    let ?a1 = "?i\<lparr>byteIndex := 29, tempo := Fin 1000000\<rparr>"
    let ?a2 = "?i\<lparr>byteIndex := 34, tempo := Fin 1000000, runningStatus := Some (Some 0x90)\<rparr>"
    let ?g1 = "?a2\<lparr>tempTrackName := ''Track 0'',
        outputDict := [''Track 0'' \<mapsto> [NoteOn 480 (Some 60) (Some 64)]]\<rparr>"
    have h: "readHeader (g\<lparr>bytes := ?file\<rparr>) = Inr (Some 1, ?g0)"
      by (simp add: g readHeader_def readBytes_def readHeaderVals_3
          bufferToNumber_def band_def headerChunk_def initialGlobals_def)
    have s0: "trackStep 0 [] ?a0 = (7, 0, [], ?a1)"
      by (simp add: g step_defs initialGlobals_def)
    have vl: "readVariableLength ?a1 = ((480, 2), ?a1\<lparr>byteIndex := byteIndex ?a1 + 2\<rparr>)"
      using readVariableLength_2 [of ?a1 3 96]
      by (simp add: g byteAt_def bufferToNumber_def initialGlobals_def)
    have s1: "trackStep 0 [] ?a1 = (5, 480, [NoteOn 480 (Some 60) (Some 64)], ?a2)"
      using vl
      by (simp add: g trackStep_def readEvent_def resolveStatus_def secondByte_def readBytes_def
          bufferToNumber_def band_def jslt_def initialGlobals_def)
    have l0: "trackLoop 12 0 [] ?a0 = (480, [NoteOn 480 (Some 60) (Some 64)], ?a2)"
      using s0 s1
      by (subst trackLoop.simps, simp, subst trackLoop.simps, simp add: trackLoop.simps [of 0])
    have p0: "trackPositions 12 0 [] ?a0 = [?a0, ?a1]"
      using s0 s1
      by (subst trackPositions.simps, simp, subst trackPositions.simps,
          simp add: trackPositions.simps [of 0])
    have t0: "readTrack 0 ?g0 = ?g1"
      using l0
      by (simp add: g readTrack_def readBytes_def bufferToNumber_def trackChunk_def
          trackBody_def storeTrack_eq dictSet_def initialGlobals_def showNat.simps char_of_def
          bit_0)
    have it: "trackIterations ?g0 = [?a0, ?a1]"
      using p0
      by (simp add: g trackIterations_def bufferToNumber_def trackChunk_def initialGlobals_def)
    have e0: "tempoEventAt ?a0 = Some (Fin 1000000)"
      by (simp add: g tempoEventAt_def metaEventAt_def vlAt_def byteAt_def
          readVariableLength_def readBytes_def rvlLoop.simps bufferToNumber_def band_def
          numOf_exact initialGlobals_def)
    have vl': "vlAt ?a1 0 = (480, 2)"
      using readVariableLength_at [of ?a1] vl by simp
    have e1: "tempoEventAt ?a1 = None"
      using vl'
      by (simp add: g tempoEventAt_def metaEventAt_def Let_def byteAt_def bufferToNumber_def
          initialGlobals_def case_prod_beta)
    have "fileIterations [0..<1] ?g0 = [?a0, ?a1]"
      using it by simp
    then have events: "List.map_filter tempoEventAt (fileIterations [0..<1] ?g0) = [Fin 1000000]"
      using e0 e1 by (simp only: map_filter_simps option.case)
    have "readTracks (Some 1) ?g0 = ?g1"
      by (simp only: readTracks_1 t0)
    then have "outputDict (readTracks (Some 1) ?g0) =
        [''Track 0'' \<mapsto> [NoteOn 480 (Some 60) (Some 64)]]"
      by simp
    with h a events show ?thesis
      by (simp only:)
  qed
  have first: "(case main ?file (Some (Fin 120)) of
      Done out \<Rightarrow>
        out ''Track 0'' =
          Some [(NoteOn 480 (Some 60) (Some 64), Fin (8796093022208001 / 17592186044416))]
    | _ \<Rightarrow> False)"
  proof -
    let ?g = "initialGlobals\<lparr>overrideTempoBPM := Fin 120, overrideTempo := Fin 500000\<rparr>"
    let ?g0 = "?g\<lparr>bytes := ?file, division := Some 480, byteIndex := 14\<rparr>"
    have r: "readHeader (applyArguments ?file (Some (Fin 120)) initialGlobals) =
          Inr (Some 1, ?g0) \<and>
        List.map_filter tempoEventAt (fileIterations [0..<1] ?g0) = [Fin 1000000] \<and>
        outputDict (readTracks (Some 1) ?g0) =
          [''Track 0'' \<mapsto> [NoteOn 480 (Some 60) (Some 64)]]"
      by (rule run [OF refl]) (simp add: applyArguments_def ov)
    from tempo_and_timestamps [of ?file "Some (Fin 120)" "Some 1" ?g0] r pos
    have "main ?file (Some (Fin 120)) =
        Done (\<lambda>name. map_option
          (map (\<lambda>e. (e, jsmul (Fin (real (evTime e)))
             (jsdiv (jsdiv (Fin 500000) (Fin 480)) (Fin 1000)))))
          ([''Track 0'' \<mapsto> [NoteOn 480 (Some 60) (Some 64)]] name))"
      by (simp add: ov Let_def numOf_exact)
    then show ?thesis
      using msPerTick_480 timeMS_480 by simp
  qed
  have second: "(case main ?file None of
      Done out \<Rightarrow>
        out ''Track 0'' =
          Some [(NoteOn 480 (Some 60) (Some 64), Fin (8796093022208001 / 8796093022208))]
    | _ \<Rightarrow> False)"
  proof -
    let ?g = "initialGlobals\<lparr>overrideTempoBPM := Fin 0, overrideTempo := Fin 0\<rparr>"
    let ?g0 = "?g\<lparr>bytes := ?file, division := Some 480, byteIndex := 14\<rparr>"
    have r: "readHeader (applyArguments ?file None initialGlobals) = Inr (Some 1, ?g0) \<and>
        List.map_filter tempoEventAt (fileIterations [0..<1] ?g0) = [Fin 1000000] \<and>
        outputDict (readTracks (Some 1) ?g0) =
          [''Track 0'' \<mapsto> [NoteOn 480 (Some 60) (Some 64)]]"
      by (rule run [OF refl]) (simp add: applyArguments_def initialGlobals_def)
    from tempo_and_timestamps [of ?file None "Some 1" ?g0] r
    have "main ?file None =
        Done (\<lambda>name. map_option
          (map (\<lambda>e. (e, jsmul (Fin (real (evTime e)))
             (jsdiv (jsdiv (Fin 1000000) (Fin 480)) (Fin 1000)))))
          ([''Track 0'' \<mapsto> [NoteOn 480 (Some 60) (Some 64)]] name))"
      by (simp add: Let_def numOf_exact lastOr_def)
    then show ?thesis
      using msPerTick_480_slow timeMS_480_slow by simp
  qed
  from first second pos show ?thesis
    by simp
qed

subsection \<open>Running the script a second time\<close>
















subsection \<open>Reading past the end of the buffer\<close>

text \<open>
  Claim C3 as stated (a read of more bytes than remain fails, and the position never
  passes the end of the buffer) does not hold. Asking for four bytes of a buffer of
  two returns the two bytes, and the position becomes 4. And a file cut after the
  status byte of its only event (\<^verbatim>\<open>00 90\<close> in a track of declared length 4) is
  decoded to the end: the two missing data bytes are NaN in the \<^verbatim>\<open>noteOn\<close> event.
\<close>

theorem readBytes_never_fails_counterexample:
  "fst (readBytes 4 (initialGlobals\<lparr>bytes := [1, 2]\<rparr>)) = [1, 2] \<and>
   byteIndex (snd (readBytes 4 (initialGlobals\<lparr>bytes := [1, 2]\<rparr>))) = 4 \<and>
   length (bytes (snd (readBytes 4 (initialGlobals\<lparr>bytes := [1, 2]\<rparr>)))) = 2 \<and>
   (case main [0x4D, 0x54, 0x68, 0x64, 0, 0, 0, 6, 0, 1, 0, 1, 0x01, 0xE0,
        0x4D, 0x54, 0x72, 0x6B, 0, 0, 0, 4, 0x00, 0x90] None of
      Done out \<Rightarrow> out ''Track 0'' = Some [(NoteOn 0 None None, Fin 0)]
    | _ \<Rightarrow> False)"
proof -
  let ?file = "[0x4D, 0x54, 0x68, 0x64, 0, 0, 0, 6, 0, 1, 0, 1, 0x01, 0xE0,
        0x4D, 0x54, 0x72, 0x6B, 0, 0, 0, 4, 0x00, 0x90] :: byte list"
  let ?i = "initialGlobals\<lparr>bytes := ?file, division := Some 480\<rparr>"
  let ?g0 = "?i\<lparr>byteIndex := 14\<rparr>"
  let ?a0 = "?i\<lparr>byteIndex := 22\<rparr>"
  let ?a1 = "?i\<lparr>byteIndex := 26, runningStatus := Some (Some 0x90)\<rparr>"
  let ?g1 = "?a1\<lparr>tempTrackName := ''Track 0'',
      outputDict := [''Track 0'' \<mapsto> [NoteOn 0 None None]]\<rparr>"
  have h: "readHeader (applyArguments ?file None initialGlobals) = Inr (Some 1, ?g0)"
    by (simp add: readHeader_def applyArguments_def readBytes_def readHeaderVals_3
        bufferToNumber_def band_def headerChunk_def initialGlobals_def)
  have s0: "trackStep 0 [] ?a0 = (4, 0, [NoteOn 0 None None], ?a1)"
    by (simp add: step_defs initialGlobals_def)
  have l0: "trackLoop 4 0 [] ?a0 = (0, [NoteOn 0 None None], ?a1)"
    using s0 by (subst trackLoop.simps) (simp add: trackLoop.simps [of 0])
  have t0: "readTrack 0 ?g0 = ?g1"
    using l0
    by (simp add: readTrack_def readBytes_def bufferToNumber_def trackChunk_def trackBody_def
        storeTrack_eq dictSet_def initialGlobals_def showNat.simps char_of_def bit_0)
  have tracks: "readTracks (Some 1) ?g0 = ?g1"
    by (simp only: readTracks_1 t0)
  have "annotateTimes ?g1 ''Track 0'' = Some [(NoteOn 0 None None, Fin 0)]"
    using msPerTick_480
    by (simp add: annotateTimes_def annotate_def Let_def initialGlobals_def numOf_exact
        timeMS_0)
  with h tracks
  have "(case main ?file None of
      Done out \<Rightarrow> out ''Track 0'' = Some [(NoteOn 0 None None, Fin 0)]
    | _ \<Rightarrow> False)"
    by (simp add: main_def script_def)
  then show ?thesis
    by (simp add: readBytes_def initialGlobals_def)
qed

end
